theory Spec2Isabelle
  imports Complex_Main "HOL-Library.Multiset"
begin

section \<open>Configuration\<close>

text \<open>
  The player script keeps two configuration objects. Only the fields that the
  history helpers and the repeat gate read are modelled.
  \<^verbatim>\<open>RECOMMENDER_CONFIG = { ..., maxHistory: 200, prefetchTopK: 10 }\<close>
  \<^verbatim>\<open>ANTI_REPEAT_CONFIG = { maxHistorySize: 200, minHistoryBeforeRepeat: 40,
                         enableSmartExclusion: true, debugLogging: true }\<close>
\<close>

definition maxHistory :: nat where
  "maxHistory = 200"

definition maxHistorySize :: nat where
  "maxHistorySize = 200"

definition minHistoryBeforeRepeat :: nat where
  "minHistoryBeforeRepeat = 40"

definition enableSmartExclusion :: bool where
  "enableSmartExclusion = True"

section \<open>Track identifiers and JavaScript truthiness\<close>

text \<open>
  A track identifier is a JavaScript string. The script tests identifiers with
  \<^verbatim>\<open>if (!songId)\<close> and \<^verbatim>\<open>id && ...\<close>; the falsy values
  (\<^verbatim>\<open>null\<close>, \<^verbatim>\<open>undefined\<close>, the empty string) all stand for
  "no identifier". A variable that may hold \<^verbatim>\<open>null\<close> is a
  \<open>string option\<close>; inside lists the falsy value is the empty string.
\<close>

type_synonym songId = string

definition truthy :: "songId \<Rightarrow> bool" where
  "truthy i = (i \<noteq> [])"

fun truthyOpt :: "songId option \<Rightarrow> bool" where
  "truthyOpt None = False"
| "truthyOpt (Some i) = truthy i"

section \<open>History helpers\<close>

text \<open>
  \<^verbatim>\<open>while (previouslyPlayed.length > cap) previouslyPlayed.shift();\<close>
  is the loop shared by \<^verbatim>\<open>addToHistory\<close> and \<^verbatim>\<open>clampHistory\<close>.
\<close>

function shiftWhileOver :: "nat \<Rightarrow> 'a list \<Rightarrow> 'a list" where
  "shiftWhileOver cap h = (if length h > cap then shiftWhileOver cap (tl h) else h)"
  by pat_completeness auto
termination
  by (relation "measure (\<lambda>(cap, h). length h)") auto

declare shiftWhileOver.simps [simp del]

text \<open>
  \<^verbatim>\<open>
  function addToHistory(songId) {
    if (!songId) return;
    if (previouslyPlayed.length &&
        previouslyPlayed[previouslyPlayed.length - 1] === songId) return;
    previouslyPlayed.push(songId);
    while (previouslyPlayed.length > ANTI_REPEAT_CONFIG.maxHistorySize)
      previouslyPlayed.shift();
  }\<close>
\<close>

definition addToHistory :: "songId \<Rightarrow> songId list \<Rightarrow> songId list" where
  "addToHistory songId previouslyPlayed =
     (if \<not> truthy songId then previouslyPlayed
      else if previouslyPlayed \<noteq> [] \<and> last previouslyPlayed = songId then previouslyPlayed
      else shiftWhileOver maxHistorySize (previouslyPlayed @ [songId]))"

definition clampHistory :: "songId list \<Rightarrow> songId list" where
  "clampHistory previouslyPlayed = shiftWhileOver maxHistory previouslyPlayed"

text \<open>\<^verbatim>\<open>Array.prototype.indexOf\<close>: the first index holding the value, \<open>None\<close> for \<open>-1\<close>.\<close>

fun indexOf :: "'a list \<Rightarrow> 'a \<Rightarrow> nat option" where
  "indexOf [] v = None"
| "indexOf (x # xs) v = (if x = v then Some 0 else map_option Suc (indexOf xs v))"

text \<open>
  \<^verbatim>\<open>
  function canPlaySong(songId) {
    if (!ANTI_REPEAT_CONFIG.enableSmartExclusion) return true;
    if (!songId) return false;
    const idx = previouslyPlayed.indexOf(songId);
    if (idx === -1) return true;
    const songsAgo = previouslyPlayed.length - idx;
    const canPlay = songsAgo >= ANTI_REPEAT_CONFIG.minHistoryBeforeRepeat;
    return canPlay;
  }\<close>
\<close>

definition canPlaySong :: "songId \<Rightarrow> songId list \<Rightarrow> bool" where
  "canPlaySong songId previouslyPlayed =
     (if \<not> enableSmartExclusion then True
      else if \<not> truthy songId then False
      else (case indexOf previouslyPlayed songId of
              None \<Rightarrow> True
            | Some idx \<Rightarrow>
                (let songsAgo = length previouslyPlayed - idx
                 in songsAgo \<ge> minHistoryBeforeRepeat)))"

text \<open>
  The operations that change the history array: \<^verbatim>\<open>addToHistory\<close>, the front
  eviction of \<^verbatim>\<open>clampHistory\<close>, the \<^verbatim>\<open>pop()\<close> of the previous-track
  handlers (guarded by \<^verbatim>\<open>previouslyPlayed.length > 0\<close>), and the
  \<^verbatim>\<open>previouslyPlayed = []\<close> of the fallback's loop breaker.
\<close>

datatype historyOp = Append songId | ClampFront | PopLast | Clear

fun applyHistoryOp :: "songId list \<Rightarrow> historyOp \<Rightarrow> songId list" where
  "applyHistoryOp h (Append i) = addToHistory i h"
| "applyHistoryOp h ClampFront = clampHistory h"
| "applyHistoryOp h PopLast = (if length h > 0 then butlast h else h)"
| "applyHistoryOp h Clear = []"

definition runHistoryOps :: "songId list \<Rightarrow> historyOp list \<Rightarrow> songId list" where
  "runHistoryOps h ops = foldl applyHistoryOp h ops"

section \<open>Collaborators\<close>

text \<open>
  The script talks to the catalog through \<^verbatim>\<open>fetch\<close> and draws random
  numbers with \<^verbatim>\<open>Math.random\<close>. Both are parameters of the model. Every
  request carries the value of a counter (the field \<open>tick\<close> of the state),
  so the same request may be answered differently each time it is made.

  A song object keeps the three fields the decision logic reads; an absent
  \<^verbatim>\<open>language\<close> or \<^verbatim>\<open>year\<close>, and a \<^verbatim>\<open>null\<close> entry or an entry
  without \<^verbatim>\<open>id\<close> in a result list, are the empty (falsy) string.
\<close>

record song =
  sid :: songId
  language :: string
  year :: string

datatype 'a fetched = FetchFailed | Fetched 'a

text \<open>The body of \<^verbatim>\<open>/recs/embeddings.json\<close>: the fields \<^verbatim>\<open>ids\<close> and
  \<^verbatim>\<open>embeddings\<close>, each possibly missing.\<close>

record embeddingsJson =
  jsonIds :: "songId list option"
  jsonEmbeddings :: "real list list option"

text \<open>
  TF.js is a library that the page loads next to the script. The script never
  looks inside a tensor: it builds one with \<^verbatim>\<open>tf.tensor2d\<close>, divides it by its
  row norms, and hands it back to the library. A tensor is therefore kept as
  the expression that built it, and what the library makes of it (whether a
  call throws, and which 32-bit floats come out) is a parameter of the model.
\<close>

datatype tensor = Tensor2d "real list list" | DivByRowNorms tensor

text \<open>A JavaScript number, as \<^verbatim>\<open>arraySync()\<close> delivers the entries of a tensor.\<close>

datatype number = Finite real | PosInfinity | NegInfinity | NaN

text \<open>\<^verbatim>\<open>arraySync()\<close> on the squeezed product: a number when the tensor has rank 0,
  an array of numbers when it has rank 1.\<close>

datatype simsValue = Scalar number | Vector "number list"

record env =
  songsApi :: "nat \<Rightarrow> songId \<Rightarrow> song option fetched"
    \<comment> \<open>\<^verbatim>\<open>GET /api/songs/<id>\<close>, read as \<^verbatim>\<open>json.data?.[0]\<close>\<close>
  suggestionsApi :: "nat \<Rightarrow> songId \<Rightarrow> songId list fetched"
    \<comment> \<open>\<^verbatim>\<open>GET /api/songs/<id>/suggestions\<close>, read as \<^verbatim>\<open>data.map(s => s.id)\<close>\<close>
  searchApi :: "nat \<Rightarrow> string \<Rightarrow> nat \<Rightarrow> song list fetched"
    \<comment> \<open>\<^verbatim>\<open>GET /api/search/songs?query=<q>&limit=<n>\<close>, through
        \<^verbatim>\<open>extractSongsFromSearchResponse\<close>\<close>
  mathRandom :: "nat \<Rightarrow> nat"
    \<comment> \<open>the draw behind \<^verbatim>\<open>Math.floor(Math.random() * n)\<close>, reduced modulo \<open>n\<close>\<close>
  tfLoaded :: bool
    \<comment> \<open>\<^verbatim>\<open>window.tf\<close> is present\<close>
  embeddingsApi :: "embeddingsJson fetched"
    \<comment> \<open>\<^verbatim>\<open>GET /recs/embeddings.json\<close>\<close>
  currentYear :: nat
    \<comment> \<open>\<^verbatim>\<open>new Date().getFullYear()\<close>\<close>
  tensor2dThrows :: "real list list \<Rightarrow> bool"
    \<comment> \<open>\<^verbatim>\<open>tf.tensor2d(values)\<close> throws\<close>
  normalizeThrows :: "tensor \<Rightarrow> bool"
    \<comment> \<open>\<^verbatim>\<open>t.norm('euclidean', 1).expandDims(1)\<close> or \<^verbatim>\<open>t.div(norms)\<close> throws\<close>
  similarityScores :: "tensor \<Rightarrow> nat \<Rightarrow> simsValue option"
    \<comment> \<open>the value of \<^verbatim>\<open>t.matMul(t.gather([idx]).transpose()).squeeze().arraySync()\<close>,
        \<open>None\<close> when one of the calls throws\<close>
  engineSortOrder :: "(songId option \<times> number) list \<Rightarrow> nat list"
    \<comment> \<open>how the engine's \<^verbatim>\<open>Array.prototype.sort\<close> rearranges a list that its
        comparator does not order consistently\<close>

section \<open>The TF.js recommender\<close>

text \<open>
  \<^verbatim>\<open>class TfjsRecommender\<close>: \<^verbatim>\<open>ids\<close>, the map \<^verbatim>\<open>idToIndex\<close>, the tensors
  \<^verbatim>\<open>rawEmbeddings\<close> and \<^verbatim>\<open>embeddings\<close> (\<^verbatim>\<open>null\<close> until assigned) and the
  flag \<^verbatim>\<open>ready\<close>.
\<close>

record recommender =
  ids :: "songId list"
  idToIndex :: "songId \<rightharpoonup> nat"
  rawEmbeddings :: "tensor option"
  embeddings :: "tensor option"
  ready :: bool

definition newRecommender :: recommender where
  "newRecommender =
     \<lparr>ids = [], idToIndex = Map.empty, rawEmbeddings = None, embeddings = None, ready = False\<rparr>"

definition useClientTraining :: bool where
  "useClientTraining = False"

text \<open>\<^verbatim>\<open>json.ids.forEach((id, idx) => this.idToIndex.set(id, idx))\<close>\<close>

definition setIndices :: "(songId \<rightharpoonup> nat) \<Rightarrow> songId list \<Rightarrow> (songId \<rightharpoonup> nat)" where
  "setIndices m is = foldl (\<lambda>m (i, idx). m(i \<mapsto> idx)) m (zip is [0..<length is])"

text \<open>
  \<^verbatim>\<open>
  async init() {
    if (!window.tf) { ...; return; }
    if (RECOMMENDER_CONFIG.useClientTraining) { ...; this.ready = false; return; }
    try {
      const res = await fetch(this.embeddingUrl);
      const json = await res.json();
      if (!json.ids || !json.embeddings) throw new Error('Invalid embeddings JSON');
      this.ids = json.ids;
      json.ids.forEach((id, idx) => this.idToIndex.set(id, idx));
      this.rawEmbeddings = tf.tensor2d(json.embeddings);
      const norms = this.rawEmbeddings.norm('euclidean', 1).expandDims(1);
      this.embeddings = this.rawEmbeddings.div(norms);
      this.ready = true;
    } catch (err) { ...; this.ready = false; }
  }\<close>
  Every statement of the \<^verbatim>\<open>try\<close> block that has run before an exception
  keeps its effect.
\<close>

definition init :: "env \<Rightarrow> recommender \<Rightarrow> recommender" where
  "init E r =
     (if \<not> tfLoaded E then r
      else if useClientTraining then r\<lparr>ready := False\<rparr>
      else (case embeddingsApi E of
              FetchFailed \<Rightarrow> r\<lparr>ready := False\<rparr>
            | Fetched json \<Rightarrow>
                (case (jsonIds json, jsonEmbeddings json) of
                   (Some is, Some es) \<Rightarrow>
                     (let r1 = r\<lparr>ids := is, idToIndex := setIndices (idToIndex r) is\<rparr>
                      in if tensor2dThrows E es then r1\<lparr>ready := False\<rparr>
                         else (let r2 = r1\<lparr>rawEmbeddings := Some (Tensor2d es)\<rparr>
                               in if normalizeThrows E (Tensor2d es) then r2\<lparr>ready := False\<rparr>
                                  else r2\<lparr>embeddings := Some (DivByRowNorms (Tensor2d es)),
                                          ready := True\<rparr>))
                 | _ \<Rightarrow> r\<lparr>ready := False\<rparr>)))"

text \<open>
  \<^verbatim>\<open>xs[i]\<close> on a JavaScript array is \<^verbatim>\<open>undefined\<close> outside the array.
\<close>

definition jsAt :: "'a list \<Rightarrow> int \<Rightarrow> 'a option" where
  "jsAt xs i = (if 0 \<le> i \<and> i < int (length xs) then Some (xs ! nat i) else None)"

text \<open>
  \<^verbatim>\<open>results.sort((a, b) => b.score - a.score)\<close>. When every score is a finite
  number, the sign of \<^verbatim>\<open>b.score - a.score\<close> is the sign of the difference of
  the two numbers, and the sort, which is stable, leaves the entries in
  descending order of score with equal scores in their former order. When a
  score is \<^verbatim>\<open>NaN\<close> or infinite the difference is \<^verbatim>\<open>NaN\<close> for some pair
  (\<^verbatim>\<open>NaN - x\<close>, \<^verbatim>\<open>Infinity - Infinity\<close>), which the sort takes for a tie;
  such ties need not agree with the order of the other scores, and ECMAScript
  leaves the order of a list that is not compared consistently to the engine.
  Here the order is the engine's whenever a score is not finite: it picks the
  entries one after the other, each by its position among those still left.
\<close>

definition isFinite :: "number \<Rightarrow> bool" where
  "isFinite x = (case x of Finite v \<Rightarrow> True | _ \<Rightarrow> False)"

definition finiteValue :: "number \<Rightarrow> real" where
  "finiteValue x = (case x of Finite v \<Rightarrow> v | _ \<Rightarrow> 0)"

fun pickInOrder :: "nat list \<Rightarrow> 'a list \<Rightarrow> 'a list" where
  "pickInOrder [] xs = xs"
| "pickInOrder (n # ns) xs =
     (if xs = [] then []
      else (let i = n mod length xs
            in xs ! i # pickInOrder ns (take i xs @ drop (Suc i) xs)))"

definition sortByScore ::
    "env \<Rightarrow> (songId option \<times> number) list \<Rightarrow> (songId option \<times> number) list" where
  "sortByScore E results =
     (if list_all (\<lambda>x. isFinite (snd x)) results
      then sort_key (\<lambda>x. - finiteValue (snd x)) results
      else pickInOrder (engineSortOrder E results) results)"

datatype tfError = NullTensor | TfjsThrows

text \<open>
  \<^verbatim>\<open>
  async getNearestNeighbors(songId, topK = 20, excludeIds = new Set()) {
    if (!this.ready) return [];
    const idx = this.idToIndex.get(songId);
    if (idx === undefined) return [];
    return tf.tidy(() => {
      const query = this.embeddings.gather([idx]);
      const sims = this.embeddings.matMul(query.transpose()).squeeze();
      const simsArray = sims.arraySync();
      const results = [];
      for (let i = 0; i < simsArray.length; i++) {
        const id = this.ids[i];
        if (id === songId) continue;
        if (excludeIds.has(id)) continue;
        results.push({ id, score: simsArray[i] });
      }
      results.sort((a, b) => b.score - a.score);
      return results.slice(0, topK);
    });
  }\<close>
  A result entry is the pair of \<^verbatim>\<open>id\<close> (\<open>None\<close> for \<^verbatim>\<open>undefined\<close>, when
  \<^verbatim>\<open>ids\<close> is shorter than \<^verbatim>\<open>simsArray\<close>) and \<^verbatim>\<open>score\<close>. A number has no
  \<^verbatim>\<open>length\<close>, so the loop does not run when \<^verbatim>\<open>arraySync()\<close> returns one.
\<close>

definition candidateResults ::
    "recommender \<Rightarrow> songId \<Rightarrow> songId set \<Rightarrow> simsValue \<Rightarrow> (songId option \<times> number) list" where
  "candidateResults r songId excludeIds simsArray =
     (case simsArray of
        Scalar x \<Rightarrow> []
      | Vector sims \<Rightarrow>
          filter (\<lambda>(i, score). i \<noteq> Some songId \<and> (case i of None \<Rightarrow> True | Some j \<Rightarrow> j \<notin> excludeIds))
            (map (\<lambda>i. (jsAt (ids r) (int i), sims ! i)) [0..<length sims]))"

definition getNearestNeighbors ::
    "env \<Rightarrow> recommender \<Rightarrow> songId \<Rightarrow> nat \<Rightarrow> songId set
       \<Rightarrow> tfError + (songId option \<times> number) list" where
  "getNearestNeighbors E r songId topK excludeIds =
     (if \<not> ready r then Inr []
      else (case idToIndex r songId of
              None \<Rightarrow> Inr []
            | Some idx \<Rightarrow>
                (case embeddings r of
                   None \<Rightarrow> Inl NullTensor
                 | Some t \<Rightarrow>
                     (case similarityScores E t idx of
                        None \<Rightarrow> Inl TfjsThrows
                      | Some simsArray \<Rightarrow>
                          (let results = candidateResults r songId excludeIds simsArray
                           in Inr (take topK (sortByScore E results)))))))"

section \<open>Player state\<close>

text \<open>
  The module-level variables of the player script, \<^verbatim>\<open>window.ZY_SETTINGS.autoplay\<close>
  (\<open>None\<close> when it is not a boolean), and four fields that record what the
  script did: \<open>tick\<close> counts the requests made, \<open>requested\<close> lists the
  identifiers handed to \<^verbatim>\<open>playSong\<close>, \<open>recorded\<close> lists the songs whose
  play \<^verbatim>\<open>playSong\<close> recorded (it found the metadata and went on to set
  \<^verbatim>\<open>lastPlayedSongId\<close> and the language counters), and \<open>prefetchInFlight\<close>
  holds the base of a \<^verbatim>\<open>prefetchSuggestionsFor\<close> call that \<^verbatim>\<open>playSong\<close>
  started without awaiting it.
\<close>

record state =
  previouslyPlayed :: "songId list"
  lastPlayedSongId :: "songId option"
  hindiPlayCount :: nat
  teluguPlayCount :: nat
  marathiPlayCount :: nat
  songCache :: "songId \<rightharpoonup> song"
  baseSongId :: "songId option"
  queue :: "songId list"
  index :: int
  tfjs :: recommender
  autoplay :: "bool option"
  tick :: nat
  requested :: "songId list"
  recorded :: "song list"
  prefetchInFlight :: "songId option"

definition initialState :: state where
  "initialState =
     \<lparr>previouslyPlayed = [], lastPlayedSongId = None,
      hindiPlayCount = 0, teluguPlayCount = 0, marathiPlayCount = 0,
      songCache = Map.empty, baseSongId = None, queue = [], index = - 1,
      tfjs = newRecommender, autoplay = Some True, tick = 0, requested = [],
      recorded = [], prefetchInFlight = None\<rparr>"

text \<open>
  \<^verbatim>\<open>
  function getExclusionSet() {
    const excludeIds = new Set();
    if (lastPlayedSongId) excludeIds.add(lastPlayedSongId);
    suggestionState.queue.forEach(id => excludeIds.add(id));
    previouslyPlayed.forEach(id => excludeIds.add(id));
    return excludeIds;
  }\<close>
\<close>

definition getExclusionSet :: "state \<Rightarrow> songId set" where
  "getExclusionSet s =
     (case lastPlayedSongId s of
        None \<Rightarrow> {}
      | Some l \<Rightarrow> if truthy l then {l} else {})
     \<union> set (queue s) \<union> set (previouslyPlayed s)"

text \<open>\<^verbatim>\<open>String.prototype.toLowerCase\<close> on the ASCII letters.\<close>

definition lowerChar :: "char \<Rightarrow> char" where
  "lowerChar c =
     (let n = (of_char c :: nat) in if 65 \<le> n \<and> n \<le> 90 then char_of (n + 32) else c)"

definition toLowerCase :: "string \<Rightarrow> string" where
  "toLowerCase str = map lowerChar str"

text \<open>
  \<^verbatim>\<open>
  function shouldPlayDiverse(currentLang) {
    const lc = (currentLang || '').toLowerCase();
    const overplayedCount =
      lc === 'hindi' ? hindiPlayCount : lc === 'telugu' ? teluguPlayCount
      : lc === 'marathi' ? marathiPlayCount : 0;
    const threshold = { hindi: 4, telugu: 3, marathi: 3 };
    return overplayedCount >= (threshold[lc] || Infinity);
  }\<close>
  The threshold \<open>None\<close> is \<^verbatim>\<open>Infinity\<close>.
\<close>

definition threshold :: "string \<Rightarrow> nat option" where
  "threshold lc =
     (if lc = ''hindi'' then Some 4 else if lc = ''telugu'' then Some 3
      else if lc = ''marathi'' then Some 3 else None)"

definition shouldPlayDiverse :: "string \<Rightarrow> state \<Rightarrow> bool" where
  "shouldPlayDiverse currentLang s =
     (let lc = toLowerCase currentLang;
          overplayedCount =
            (if lc = ''hindi'' then hindiPlayCount s
             else if lc = ''telugu'' then teluguPlayCount s
             else if lc = ''marathi'' then marathiPlayCount s
             else 0)
      in case threshold lc of None \<Rightarrow> False | Some t \<Rightarrow> overplayedCount \<ge> t)"

text \<open>
  The language counters at the end of \<^verbatim>\<open>playSong\<close>:
  \<^verbatim>\<open>
    const lang = (s.language || '').toLowerCase();
    if (lang === 'hindi') hindiPlayCount++;   else hindiPlayCount = 0;
    if (lang === 'telugu') teluguPlayCount++; else teluguPlayCount = 0;
    if (lang === 'marathi') marathiPlayCount++; else marathiPlayCount = 0;\<close>
\<close>

definition countLanguage :: "string \<Rightarrow> state \<Rightarrow> state" where
  "countLanguage songLanguage s =
     (let lang = toLowerCase songLanguage
      in s\<lparr>hindiPlayCount := (if lang = ''hindi'' then hindiPlayCount s + 1 else 0),
            teluguPlayCount := (if lang = ''telugu'' then teluguPlayCount s + 1 else 0),
            marathiPlayCount := (if lang = ''marathi'' then marathiPlayCount s + 1 else 0)\<rparr>)"

text \<open>
  The cache lookup that \<^verbatim>\<open>playSong\<close> and the fallback both start with:
  \<^verbatim>\<open>
    let s = songCache.get(id);
    if (!s) {
      const res = await fetch(`/api/songs/${id}`);
      const json = await res.json();
      s = json.data?.[0];
      if (s) songCache.set(id, s);
    }\<close>
  (\<^verbatim>\<open>playSong\<close> throws between the last two lines when \<^verbatim>\<open>s\<close> is missing,
  which leaves the cache as it is).
\<close>

definition loadSong :: "env \<Rightarrow> songId \<Rightarrow> state \<Rightarrow> song option fetched \<times> state" where
  "loadSong E i s =
     (case songCache s i of
        Some sg \<Rightarrow> (Fetched (Some sg), s)
      | None \<Rightarrow>
          (case songsApi E (tick s) i of
             FetchFailed \<Rightarrow> (FetchFailed, s\<lparr>tick := tick s + 1\<rparr>)
           | Fetched None \<Rightarrow> (Fetched None, s\<lparr>tick := tick s + 1\<rparr>)
           | Fetched (Some sg) \<Rightarrow>
               (Fetched (Some sg), s\<lparr>tick := tick s + 1, songCache := (songCache s)(i \<mapsto> sg)\<rparr>)))"

text \<open>
  \<^verbatim>\<open>
  async function playSong(id, options = {}) {
    const { fromAutoplay = false, fromHistory = false } = options;
    try {
      if (!fromHistory && lastPlayedSongId && lastPlayedSongId !== id) {
        addToHistory(lastPlayedSongId);
        clampHistory();
      }
      let s = songCache.get(id);
      if (!s) { ...; if (!s) throw new Error('Song metadata not found'); songCache.set(id, s); }
      lastPlayedSongId = id;
      if (!fromAutoplay && !fromHistory) {
        suggestionState.baseSongId = id;
        suggestionState.queue = [];
        suggestionState.index = -1;
        prefetchSuggestionsFor(id).catch(...);
      }
      const lang = (s.language || '').toLowerCase();
      ... (the language counters, then the audio element and the page)
    } catch (err) { console.error(...); }
  }\<close>
  The audio element and the page are outside the model. The model names
  the two straight-line parts of the body: \<open>rememberLastPlayed\<close> is the
  first \<^verbatim>\<open>if\<close>, \<open>recordPlay\<close> is everything after the metadata was
  found.
\<close>

definition rememberLastPlayed :: "songId \<Rightarrow> bool \<Rightarrow> state \<Rightarrow> state" where
  "rememberLastPlayed i fromHistory s =
     (case lastPlayedSongId s of
        None \<Rightarrow> s
      | Some l \<Rightarrow>
          if \<not> fromHistory \<and> truthy l \<and> l \<noteq> i
          then s\<lparr>previouslyPlayed := clampHistory (addToHistory l (previouslyPlayed s))\<rparr>
          else s)"

definition recordPlay :: "songId \<Rightarrow> bool \<Rightarrow> bool \<Rightarrow> song \<Rightarrow> state \<Rightarrow> state" where
  "recordPlay i fromAutoplay fromHistory sg s =
     (let s1 = s\<lparr>lastPlayedSongId := Some i, recorded := recorded s @ [sg]\<rparr>;
          s2 = (if \<not> fromAutoplay \<and> \<not> fromHistory
                then s1\<lparr>baseSongId := Some i, queue := [], index := - 1,
                        prefetchInFlight := Some i\<rparr>
                else s1)
      in countLanguage (language sg) s2)"

definition playSong :: "env \<Rightarrow> songId \<Rightarrow> bool \<Rightarrow> bool \<Rightarrow> state \<Rightarrow> state" where
  "playSong E i fromAutoplay fromHistory s =
     (case loadSong E i (rememberLastPlayed i fromHistory (s\<lparr>requested := requested s @ [i]\<rparr>)) of
        (Fetched (Some sg), s1) \<Rightarrow> recordPlay i fromAutoplay fromHistory sg s1
      | (_, s1) \<Rightarrow> s1)"

text \<open>
  \<^verbatim>\<open>
  async function fetchPopularRandomSong(excludeIds) {
    const res = await fetch(`/api/search/songs?query=popular&limit=50`);
    const json = await res.json();
    const candidates = extractSongsFromSearchResponse(json).filter(
      s => s && s.id && !excludeIds.has(s.id));
    return candidates.length
      ? candidates[Math.floor(Math.random() * candidates.length)] : null;
  }\<close>
\<close>

definition randomChoice :: "env \<Rightarrow> 'a list \<Rightarrow> state \<Rightarrow> 'a \<times> state" where
  "randomChoice E xs s = (xs ! (mathRandom E (tick s) mod length xs), s\<lparr>tick := tick s + 1\<rparr>)"

definition fetchPopularRandomSong ::
    "env \<Rightarrow> songId set \<Rightarrow> state \<Rightarrow> song option fetched \<times> state" where
  "fetchPopularRandomSong E excludeIds s =
     (let s1 = s\<lparr>tick := tick s + 1\<rparr>
      in case searchApi E (tick s) ''popular'' 50 of
           FetchFailed \<Rightarrow> (FetchFailed, s1)
         | Fetched songs \<Rightarrow>
             (let candidates = filter (\<lambda>x. truthy (sid x) \<and> sid x \<notin> excludeIds) songs
              in if candidates \<noteq> []
                 then (case randomChoice E candidates s1 of (c, s2) \<Rightarrow> (Fetched (Some c), s2))
                 else (Fetched None, s1)))"

text \<open>The first truthy operand of a chain \<^verbatim>\<open>a || b || c\<close>, \<open>None\<close> when all are falsy.\<close>

fun firstTruthy :: "songId option list \<Rightarrow> songId option" where
  "firstTruthy [] = None"
| "firstTruthy (x # xs) = (if truthyOpt x then x else firstTruthy xs)"

text \<open>\<^verbatim>\<open>xs.length ? xs[xs.length - 1] : null\<close>\<close>

definition lastOrNull :: "songId list \<Rightarrow> songId option" where
  "lastOrNull xs = (if xs \<noteq> [] then Some (last xs) else None)"

text \<open>
  \<^verbatim>\<open>
  async function fallbackFreshSongsWithExclusion() {
    try {
      const excludeIds = getExclusionSet();
      const baseId = lastPlayedSongId ||
        (previouslyPlayed.length ? previouslyPlayed[previouslyPlayed.length - 1] : null);
      if (!baseId) {
        const cand = await fetchPopularRandomSong(excludeIds);
        if (cand && cand.id) await playSong(cand.id, { fromAutoplay: true });
        return;
      }
      let s = songCache.get(baseId);
      if (!s) { ... }
      const qLang = s?.language || '';
      const qYear = s?.year || '';
      let queryStr = qLang;
      if (qLang && qYear) queryStr = `${qLang} ${qYear}`;
      const fallbackRes = await fetch(`/api/search/songs?query=${queryStr}&limit=40`);
      const fallbackJson = await fallbackRes.json();
      let candidates = extractSongsFromSearchResponse(fallbackJson);
      if (candidates && candidates.length > 0) {
        const freshCandidates = candidates.filter(
          song => song && song.id && !excludeIds.has(song.id));
        if (freshCandidates.length > 0) {
          const fallbackSong =
            freshCandidates[Math.floor(Math.random() * freshCandidates.length)];
          await playSong(fallbackSong.id, { fromAutoplay: true });
          return;
        }
      }
      const popular = await fetchPopularRandomSong(excludeIds);
      if (popular && popular.id) {
        await playSong(popular.id, { fromAutoplay: true });
        return;
      }
      previouslyPlayed = [];
      suggestionState.queue = [];
      suggestionState.index = -1;
    } catch (err) { console.error(...); }
  }\<close>
\<close>

definition fallbackQuery :: "song option \<Rightarrow> string" where
  "fallbackQuery sOpt =
     (let qLang = (case sOpt of None \<Rightarrow> [] | Some sg \<Rightarrow> language sg);
          qYear = (case sOpt of None \<Rightarrow> [] | Some sg \<Rightarrow> year sg)
      in if qLang \<noteq> [] \<and> qYear \<noteq> [] then qLang @ '' '' @ qYear else qLang)"

definition fallbackFreshSongsWithExclusion :: "env \<Rightarrow> state \<Rightarrow> state" where
  "fallbackFreshSongsWithExclusion E s =
     (let excludeIds = getExclusionSet s;
          baseId = firstTruthy [lastPlayedSongId s, lastOrNull (previouslyPlayed s)]
      in case baseId of
           None \<Rightarrow>
             (case fetchPopularRandomSong E excludeIds s of
                (Fetched (Some cand), s1) \<Rightarrow> playSong E (sid cand) True False s1
              | (_, s1) \<Rightarrow> s1)
         | Some b \<Rightarrow>
             (case loadSong E b s of
                (FetchFailed, s1) \<Rightarrow> s1
              | (Fetched sOpt, s1) \<Rightarrow>
                  (let s2 = s1\<lparr>tick := tick s1 + 1\<rparr>
                   in case searchApi E (tick s1) (fallbackQuery sOpt) 40 of
                        FetchFailed \<Rightarrow> s2
                      | Fetched candidates \<Rightarrow>
                          (let freshCandidates =
                                 filter (\<lambda>x. truthy (sid x) \<and> sid x \<notin> excludeIds) candidates
                           in if freshCandidates \<noteq> []
                              then (case randomChoice E freshCandidates s2 of
                                      (fallbackSong, s3) \<Rightarrow> playSong E (sid fallbackSong) True False s3)
                              else (case fetchPopularRandomSong E excludeIds s2 of
                                      (FetchFailed, s3) \<Rightarrow> s3
                                    | (Fetched (Some popular), s3) \<Rightarrow>
                                        playSong E (sid popular) True False s3
                                    | (Fetched None, s3) \<Rightarrow>
                                        s3\<lparr>previouslyPlayed := [], queue := [], index := - 1\<rparr>)))))"

text \<open>
  \<^verbatim>\<open>
  async function prefetchSuggestionsFor(songId) {
    try {
      suggestionState.baseSongId = songId;
      suggestionState.queue = [];
      suggestionState.index = -1;
      const res = await fetch(`/api/songs/${songId}/suggestions`);
      const json = await res.json();
      const data = json?.data || [];
      if (!Array.isArray(data) || !data.length) {
        await fallbackFreshSongsWithExclusion();
        return;
      }
      const excludeIds = getExclusionSet();
      const ids = data.map(s => s.id).filter(id => id && !excludeIds.has(id));
      suggestionState.queue = ids;
      suggestionState.index = -1;
    } catch (err) { await fallbackFreshSongsWithExclusion(); }
  }\<close>
\<close>

definition prefetchSuggestionsFor :: "env \<Rightarrow> songId \<Rightarrow> state \<Rightarrow> state" where
  "prefetchSuggestionsFor E songId s =
     (let s1 = s\<lparr>baseSongId := Some songId, queue := [], index := - 1, tick := tick s + 1\<rparr>
      in case suggestionsApi E (tick s) songId of
           FetchFailed \<Rightarrow> fallbackFreshSongsWithExclusion E s1
         | Fetched dataIds \<Rightarrow>
             if dataIds = [] then fallbackFreshSongsWithExclusion E s1
             else (let excludeIds = getExclusionSet s1
                   in s1\<lparr>queue := filter (\<lambda>i. truthy i \<and> i \<notin> excludeIds) dataIds,
                         index := - 1\<rparr>))"

section \<open>Facts about the history helpers\<close>

lemma shiftWhileOver_drop: "shiftWhileOver cap h = drop (length h - cap) h"
proof (induction cap h rule: shiftWhileOver.induct)
  case (1 cap h)
  show ?case
  proof (cases "length h > cap")
    case True
    then obtain x t where h: "h = x # t" by (cases h) auto
    have "shiftWhileOver cap h = shiftWhileOver cap (tl h)"
      using True shiftWhileOver.simps [of cap h] by simp
    also have "\<dots> = drop (length (tl h) - cap) (tl h)"
      using "1.IH" True by simp
    also have "\<dots> = drop (length h - cap) h"
    proof -
      from True h have "length h - cap = Suc (length t - cap)" by simp
      with h show ?thesis by simp
    qed
    finally show ?thesis .
  next
    case False
    then show ?thesis
      using shiftWhileOver.simps [of cap h] by simp
  qed
qed

lemma length_shiftWhileOver: "length (shiftWhileOver cap h) \<le> cap"
  by (simp add: shiftWhileOver_drop)

lemma shiftWhileOver_id: "length h \<le> cap \<Longrightarrow> shiftWhileOver cap h = h"
  by (simp add: shiftWhileOver_drop)

lemma length_addToHistory: "length h \<le> maxHistorySize \<Longrightarrow> length (addToHistory i h) \<le> maxHistorySize"
  by (simp add: addToHistory_def length_shiftWhileOver)

lemma length_runAppends:
  "length h \<le> maxHistorySize \<Longrightarrow> length (foldl (\<lambda>h i. addToHistory i h) h songIds) \<le> maxHistorySize"
  by (induction songIds arbitrary: h) (simp_all add: length_addToHistory)

lemma distinct_adj_drop: "distinct_adj xs \<Longrightarrow> distinct_adj (drop n xs)"
  by (metis append_take_drop_id distinct_adj_appendD2)

lemma distinct_adj_butlast: "distinct_adj xs \<Longrightarrow> distinct_adj (butlast xs)"
  by (metis append_butlast_last_id butlast.simps(1) distinct_adj_appendD1)

lemma distinct_adj_snoc: "distinct_adj xs \<Longrightarrow> xs = [] \<or> last xs \<noteq> x \<Longrightarrow> distinct_adj (xs @ [x])"
  by (auto simp: distinct_adj_append_iff)

lemma distinct_adj_addToHistory: "distinct_adj h \<Longrightarrow> distinct_adj (addToHistory i h)"
  by (auto simp: addToHistory_def shiftWhileOver_drop intro!: distinct_adj_drop distinct_adj_snoc
      simp del: drop_append)

lemma distinct_adj_applyHistoryOp: "distinct_adj h \<Longrightarrow> distinct_adj (applyHistoryOp h opn)"
  by (cases opn)
    (simp_all add: distinct_adj_addToHistory clampHistory_def shiftWhileOver_drop
      distinct_adj_drop distinct_adj_butlast)

lemma distinct_adj_runHistoryOps: "distinct_adj h \<Longrightarrow> distinct_adj (runHistoryOps h ops)"
  unfolding runHistoryOps_def
  by (induction ops arbitrary: h) (simp_all add: distinct_adj_applyHistoryOp)

section \<open>What the player operations leave unchanged\<close>

text \<open>
  The states reached from \<open>s\<close> by requests alone: the request counter has
  advanced and the song cache may have gained entries.
\<close>

definition afterFetches :: "state \<Rightarrow> state set" where
  "afterFetches s =
     {s\<lparr>tick := t, songCache := c\<rparr> | t c. tick s \<le> t \<and> songCache s \<subseteq>\<^sub>m c}"

lemma afterFetchesI:
  "tick s \<le> t \<Longrightarrow> songCache s \<subseteq>\<^sub>m c \<Longrightarrow> s\<lparr>tick := t, songCache := c\<rparr> \<in> afterFetches s"
  unfolding afterFetches_def by blast

lemma afterFetches_refl [simp]: "s \<in> afterFetches s"
proof -
  have "s\<lparr>tick := tick s, songCache := songCache s\<rparr> \<in> afterFetches s"
    by (rule afterFetchesI) simp_all
  then show ?thesis by simp
qed

lemma afterFetches_tick [simp]: "s\<lparr>tick := Suc (tick s)\<rparr> \<in> afterFetches s"
proof -
  have "s\<lparr>tick := Suc (tick s)\<rparr> = s\<lparr>tick := Suc (tick s), songCache := songCache s\<rparr>" by simp
  moreover have "s\<lparr>tick := Suc (tick s), songCache := songCache s\<rparr> \<in> afterFetches s"
    by (rule afterFetchesI) simp_all
  ultimately show ?thesis by simp
qed

lemma afterFetches_trans:
  assumes "s1 \<in> afterFetches s" "s2 \<in> afterFetches s1"
  shows "s2 \<in> afterFetches s"
proof -
  from assms(1) obtain t c where s1: "s1 = s\<lparr>tick := t, songCache := c\<rparr>"
    and le: "tick s \<le> t" "songCache s \<subseteq>\<^sub>m c"
    unfolding afterFetches_def by blast
  from assms(2) obtain t' c' where s2: "s2 = s1\<lparr>tick := t', songCache := c'\<rparr>"
    and le': "tick s1 \<le> t'" "songCache s1 \<subseteq>\<^sub>m c'"
    unfolding afterFetches_def by blast
  from s1 s2 have "s2 = s\<lparr>tick := t', songCache := c'\<rparr>" by simp
  moreover from s1 le le' have "tick s \<le> t'" "songCache s \<subseteq>\<^sub>m c'"
    by (auto intro: map_le_trans)
  ultimately show ?thesis by (simp add: afterFetchesI)
qed

lemma afterFetches_fields:
  assumes "s1 \<in> afterFetches s"
  shows "queue s1 = queue s" "index s1 = index s" "previouslyPlayed s1 = previouslyPlayed s"
    "lastPlayedSongId s1 = lastPlayedSongId s" "requested s1 = requested s"
    "recorded s1 = recorded s" "tfjs s1 = tfjs s" "autoplay s1 = autoplay s"
    "baseSongId s1 = baseSongId s" "hindiPlayCount s1 = hindiPlayCount s"
    "teluguPlayCount s1 = teluguPlayCount s" "marathiPlayCount s1 = marathiPlayCount s"
    "prefetchInFlight s1 = prefetchInFlight s" "getExclusionSet s1 = getExclusionSet s"
    "tick s \<le> tick s1" "songCache s \<subseteq>\<^sub>m songCache s1"
  using assms unfolding afterFetches_def getExclusionSet_def by auto

lemma loadSong_afterFetches: "snd (loadSong E i s) \<in> afterFetches s"
proof (cases "songCache s i")
  case (Some sg)
  then show ?thesis by (simp add: loadSong_def)
next
  case None
  show ?thesis
  proof (cases "songsApi E (tick s) i")
    case FetchFailed
    with None show ?thesis by (simp add: loadSong_def)
  next
    case (Fetched r)
    show ?thesis
    proof (cases r)
      case None
      with \<open>songCache s i = None\<close> Fetched show ?thesis by (simp add: loadSong_def)
    next
      case (Some sg)
      have "songCache s \<subseteq>\<^sub>m (songCache s)(i \<mapsto> sg)"
        using \<open>songCache s i = None\<close> by (auto simp: map_le_def)
      then have "s\<lparr>tick := Suc (tick s), songCache := (songCache s)(i \<mapsto> sg)\<rparr> \<in> afterFetches s"
        by (intro afterFetchesI) simp_all
      with \<open>songCache s i = None\<close> Fetched Some show ?thesis by (simp add: loadSong_def)
    qed
  qed
qed

lemma loadSong_cached:
  "fst (loadSong E i s) = Fetched (Some sg) \<Longrightarrow> songCache (snd (loadSong E i s)) i = Some sg"
  by (auto simp: loadSong_def split: option.splits fetched.splits)

lemma randomChoice_afterFetches: "snd (randomChoice E xs s) \<in> afterFetches s"
  by (simp add: randomChoice_def)

lemma randomChoice_mem: "xs \<noteq> [] \<Longrightarrow> fst (randomChoice E xs s) \<in> set xs"
  by (simp add: randomChoice_def)

lemma randomChoice_filter:
  "filter P xs \<noteq> [] \<Longrightarrow> P (fst (randomChoice E (filter P xs) s))"
  using randomChoice_mem [of "filter P xs" E s] by simp

lemma fetchPopularRandomSong_afterFetches:
  "snd (fetchPopularRandomSong E ex s) \<in> afterFetches s"
proof (cases "searchApi E (tick s) ''popular'' 50")
  case FetchFailed
  then show ?thesis by (simp add: fetchPopularRandomSong_def)
next
  case (Fetched songs)
  have "snd (randomChoice E xs (s\<lparr>tick := Suc (tick s)\<rparr>)) \<in> afterFetches s" for xs :: "song list"
    using afterFetches_trans [OF afterFetches_tick randomChoice_afterFetches] .
  with Fetched show ?thesis
    by (simp add: fetchPopularRandomSong_def Let_def split_beta)
qed

lemma fetchPopularRandomSong_result:
  assumes "fst (fetchPopularRandomSong E ex s) = Fetched (Some c)"
  shows "truthy (sid c) \<and> sid c \<notin> ex"
proof (cases "searchApi E (tick s) ''popular'' 50")
  case FetchFailed
  with assms show ?thesis by (simp add: fetchPopularRandomSong_def)
next
  case (Fetched songs)
  let ?P = "\<lambda>x. truthy (sid x) \<and> sid x \<notin> ex"
  from assms Fetched have ne: "filter ?P songs \<noteq> []"
    and c: "c = fst (randomChoice E (filter ?P songs) (s\<lparr>tick := tick s + 1\<rparr>))"
    by (auto simp: fetchPopularRandomSong_def Let_def split_beta split: if_splits)
  from randomChoice_filter [OF ne] c show ?thesis by simp
qed


lemma firstTruthy_Some: "firstTruthy xs = Some b \<Longrightarrow> truthy b \<and> Some b \<in> set xs"
  by (induction xs) (auto split: if_splits)

lemma firstTruthy_None: "firstTruthy xs = None \<Longrightarrow> x \<in> set xs \<Longrightarrow> \<not> truthyOpt x"
  by (induction xs) (auto split: if_splits)

lemma rememberLastPlayed_fields [simp]:
  "queue (rememberLastPlayed i fh s) = queue s"
  "index (rememberLastPlayed i fh s) = index s"
  "lastPlayedSongId (rememberLastPlayed i fh s) = lastPlayedSongId s"
  "requested (rememberLastPlayed i fh s) = requested s"
  "recorded (rememberLastPlayed i fh s) = recorded s"
  "tfjs (rememberLastPlayed i fh s) = tfjs s"
  "autoplay (rememberLastPlayed i fh s) = autoplay s"
  "baseSongId (rememberLastPlayed i fh s) = baseSongId s"
  "hindiPlayCount (rememberLastPlayed i fh s) = hindiPlayCount s"
  "teluguPlayCount (rememberLastPlayed i fh s) = teluguPlayCount s"
  "marathiPlayCount (rememberLastPlayed i fh s) = marathiPlayCount s"
  "prefetchInFlight (rememberLastPlayed i fh s) = prefetchInFlight s"
  "songCache (rememberLastPlayed i fh s) = songCache s"
  "tick (rememberLastPlayed i fh s) = tick s"
  by (simp_all add: rememberLastPlayed_def split: option.split)

lemma recordPlay_fields [simp]:
  "previouslyPlayed (recordPlay i a fh sg s) = previouslyPlayed s"
  "lastPlayedSongId (recordPlay i a fh sg s) = Some i"
  "requested (recordPlay i a fh sg s) = requested s"
  "recorded (recordPlay i a fh sg s) = recorded s @ [sg]"
  "tfjs (recordPlay i a fh sg s) = tfjs s"
  "autoplay (recordPlay i a fh sg s) = autoplay s"
  "songCache (recordPlay i a fh sg s) = songCache s"
  "tick (recordPlay i a fh sg s) = tick s"
  "queue (recordPlay i True fh sg s) = queue s"
  "index (recordPlay i True fh sg s) = index s"
  "baseSongId (recordPlay i True fh sg s) = baseSongId s"
  "prefetchInFlight (recordPlay i True fh sg s) = prefetchInFlight s"
  "queue (recordPlay i a True sg s) = queue s"
  "index (recordPlay i a True sg s) = index s"
  "baseSongId (recordPlay i a True sg s) = baseSongId s"
  "prefetchInFlight (recordPlay i a True sg s) = prefetchInFlight s"
  by (simp_all add: recordPlay_def countLanguage_def Let_def)

lemma playSong_cases [case_names failed played]:
  obtains (failed) s1 where
      "s1 \<in> afterFetches (rememberLastPlayed i fh (s\<lparr>requested := requested s @ [i]\<rparr>))"
      "playSong E i a fh s = s1"
  | (played) s1 sg where
      "s1 \<in> afterFetches (rememberLastPlayed i fh (s\<lparr>requested := requested s @ [i]\<rparr>))"
      "songCache s1 i = Some sg"
      "playSong E i a fh s = recordPlay i a fh sg s1"
proof -
  let ?s0 = "rememberLastPlayed i fh (s\<lparr>requested := requested s @ [i]\<rparr>)"
  obtain r s1 where l: "loadSong E i ?s0 = (r, s1)" by (cases "loadSong E i ?s0")
  with loadSong_afterFetches [of E i ?s0] have s1: "s1 \<in> afterFetches ?s0" by simp
  show thesis
  proof (cases "\<exists>sg. r = Fetched (Some sg)")
    case True
    then obtain sg where r: "r = Fetched (Some sg)" by blast
    with l loadSong_cached [of E i ?s0 sg] have "songCache s1 i = Some sg" by simp
    moreover from l r have "playSong E i a fh s = recordPlay i a fh sg s1"
      by (simp add: playSong_def)
    ultimately show thesis using s1 played by blast
  next
    case False
    with l have "playSong E i a fh s = s1"
      by (cases r) (auto simp: playSong_def split: option.splits)
    with s1 failed show thesis by blast
  qed
qed

lemma playSong_fields [simp]:
  "requested (playSong E i a fh s) = requested s @ [i]"
  "tfjs (playSong E i a fh s) = tfjs s"
  "autoplay (playSong E i a fh s) = autoplay s"
  by (cases rule: playSong_cases [of i fh s E a]; simp add: afterFetches_fields)+

lemma playSong_autoplay_fields [simp]:
  "queue (playSong E i True fh s) = queue s"
  "index (playSong E i True fh s) = index s"
  "baseSongId (playSong E i True fh s) = baseSongId s"
  "prefetchInFlight (playSong E i True fh s) = prefetchInFlight s"
  by (cases rule: playSong_cases [of i fh s E True]; simp add: afterFetches_fields)+

lemma fallback_cases [case_names quiet play cleared]:
  obtains (quiet) s1 where "s1 \<in> afterFetches s" "fallbackFreshSongsWithExclusion E s = s1"
  | (play) s1 c where "s1 \<in> afterFetches s" "truthy c" "c \<notin> getExclusionSet s"
      "fallbackFreshSongsWithExclusion E s = playSong E c True False s1"
  | (cleared) s1 where "s1 \<in> afterFetches s"
      "fallbackFreshSongsWithExclusion E s = s1\<lparr>previouslyPlayed := [], queue := [], index := - 1\<rparr>"
proof -
  let ?ex = "getExclusionSet s"
  let ?P = "\<lambda>x. truthy (sid x) \<and> sid x \<notin> ?ex"
  have popular: thesis
    if s0: "s0 \<in> afterFetches s"
      and hit: "\<And>c s1. fetchPopularRandomSong E ?ex s0 = (Fetched (Some c), s1) \<Longrightarrow>
                  fallbackFreshSongsWithExclusion E s = playSong E (sid c) True False s1"
      and miss: "\<And>s1. fetchPopularRandomSong E ?ex s0 = (Fetched None, s1) \<Longrightarrow>
                  fallbackFreshSongsWithExclusion E s = s1
                  \<or> fallbackFreshSongsWithExclusion E s = s1\<lparr>previouslyPlayed := [], queue := [], index := - 1\<rparr>"
      and fail: "\<And>s1. fetchPopularRandomSong E ?ex s0 = (FetchFailed, s1) \<Longrightarrow>
                  fallbackFreshSongsWithExclusion E s = s1"
    for s0
  proof -
    obtain r s1 where p: "fetchPopularRandomSong E ?ex s0 = (r, s1)"
      by (cases "fetchPopularRandomSong E ?ex s0")
    with fetchPopularRandomSong_afterFetches [of E ?ex s0] s0 have s1: "s1 \<in> afterFetches s"
      by (auto intro: afterFetches_trans)
    show thesis
    proof (cases r)
      case FetchFailed
      with p fail s1 quiet show thesis by blast
    next
      case (Fetched found)
      show thesis
      proof (cases found)
        case None
        with p Fetched miss s1 quiet cleared show thesis by blast
      next
        case (Some c)
        with p Fetched fetchPopularRandomSong_result [of E ?ex s0 c]
        have "truthy (sid c)" "sid c \<notin> ?ex" by simp_all
        with p Fetched Some hit s1 play show thesis by blast
      qed
    qed
  qed
  show thesis
  proof (cases "firstTruthy [lastPlayedSongId s, lastOrNull (previouslyPlayed s)]")
    case None
    show thesis
      by (rule popular [of s]) (simp_all add: fallbackFreshSongsWithExclusion_def None Let_def del: firstTruthy.simps)
  next
    case (Some b)
    obtain r s1 where l: "loadSong E b s = (r, s1)" by (cases "loadSong E b s")
    with loadSong_afterFetches [of E b s] have s1: "s1 \<in> afterFetches s" by simp
    show thesis
    proof (cases r)
      case FetchFailed
      with Some l have "fallbackFreshSongsWithExclusion E s = s1"
        by (simp add: fallbackFreshSongsWithExclusion_def Let_def del: firstTruthy.simps)
      with s1 quiet show thesis by blast
    next
      case (Fetched sOpt)
      let ?s2 = "s1\<lparr>tick := tick s1 + 1\<rparr>"
      have s2: "?s2 \<in> afterFetches s"
        using afterFetches_trans [OF s1 afterFetches_tick] by simp
      show thesis
      proof (cases "searchApi E (tick s1) (fallbackQuery sOpt) 40")
        case FetchFailed
        with Some l Fetched have "fallbackFreshSongsWithExclusion E s = ?s2"
          by (simp add: fallbackFreshSongsWithExclusion_def Let_def del: firstTruthy.simps)
        with s2 quiet show thesis by blast
      next
        case cands: (Fetched candidates)
        show thesis
        proof (cases "filter ?P candidates = []")
          case True
          show thesis
            by (rule popular [OF s2])
              (simp_all add: fallbackFreshSongsWithExclusion_def Some l Fetched cands True Let_def
                del: firstTruthy.simps)
        next
          case False
          obtain c s3 where rc: "randomChoice E (filter ?P candidates) ?s2 = (c, s3)"
            by (cases "randomChoice E (filter ?P candidates) ?s2")
          with randomChoice_afterFetches [of E "filter ?P candidates" ?s2] s2
          have s3: "s3 \<in> afterFetches s" by (auto intro: afterFetches_trans)
          from randomChoice_filter [OF False, of E ?s2] rc have "truthy (sid c)" "sid c \<notin> ?ex"
            by simp_all
          moreover from Some l Fetched cands False rc
          have "fallbackFreshSongsWithExclusion E s = playSong E (sid c) True False s3"
            by (simp add: fallbackFreshSongsWithExclusion_def Let_def del: firstTruthy.simps)
          ultimately show thesis using s3 play by blast
        qed
      qed
    qed
  qed
qed

lemma queue_fallback_empty:
  "queue s = [] \<Longrightarrow> queue (fallbackFreshSongsWithExclusion E s) = []"
  by (cases rule: fallback_cases [of s E]) (simp_all add: afterFetches_fields)

lemma indexOf_None: "i \<notin> set h \<Longrightarrow> indexOf h i = None"
  by (induction h) auto

lemma canPlaySong_fresh: "truthy i \<Longrightarrow> i \<notin> set h \<Longrightarrow> canPlaySong i h"
  by (simp add: canPlaySong_def indexOf_None)

lemma prefetch_queue_fresh:
  assumes "i \<in> set (queue (prefetchSuggestionsFor E b s))"
  shows "truthy i \<and> i \<notin> set (previouslyPlayed (prefetchSuggestionsFor E b s))"
proof (cases "suggestionsApi E (tick s) b")
  case FetchFailed
  with assms show ?thesis
    by (simp add: prefetchSuggestionsFor_def Let_def queue_fallback_empty)
next
  case (Fetched dataIds)
  show ?thesis
  proof (cases "dataIds = []")
    case True
    with Fetched assms show ?thesis
      by (simp add: prefetchSuggestionsFor_def Let_def queue_fallback_empty)
  next
    case False
    with Fetched assms show ?thesis
      by (simp add: prefetchSuggestionsFor_def Let_def getExclusionSet_def)
  qed
qed

section \<open>The decision procedure\<close>

text \<open>\<^verbatim>\<open>a || b\<close> on identifiers that may be \<^verbatim>\<open>null\<close>.\<close>

definition jsOr :: "songId option \<Rightarrow> songId option \<Rightarrow> songId option" where
  "jsOr a b = (if truthyOpt a then a else b)"

text \<open>
  \<^verbatim>\<open>
  async function playNextFromSuggestions() {
    // 1) Use existing queue
    if (suggestionState.queue.length &&
        suggestionState.index < suggestionState.queue.length - 1) {
      suggestionState.index += 1;
      const nextId = suggestionState.queue[suggestionState.index];
      if (!canPlaySong(nextId)) return playNextFromSuggestions();
      await playSong(nextId, { fromAutoplay: true });
      suggestionState.baseSongId =
        suggestionState.queue[suggestionState.queue.length - 1] || nextId;
      return;
    }
    // 2) Need new suggestions
    const baseId =
      (suggestionState.queue.length
        ? suggestionState.queue[suggestionState.queue.length - 1] : null) ||
      lastPlayedSongId ||
      (previouslyPlayed.length ? previouslyPlayed[previouslyPlayed.length - 1] : null) ||
      suggestionState.baseSongId;
    if (!baseId) { await fallbackFreshSongsWithExclusion(); return; }
    await prefetchSuggestionsFor(baseId);
    if (suggestionState.queue.length) {
      suggestionState.index = 0;
      const nextId = suggestionState.queue[0];
      if (!canPlaySong(nextId)) return playNextFromSuggestions();
      await playSong(nextId, { fromAutoplay: true });
      return;
    }
    await fallbackFreshSongsWithExclusion();
  }\<close>
  The recursion of the first branch moves the cursor towards the end of the
  queue. The recursion of the second branch is never taken: a queue that
  \<^verbatim>\<open>prefetchSuggestionsFor\<close> has just filled holds only identifiers outside
  the history, which \<^verbatim>\<open>canPlaySong\<close> accepts. The function is therefore
  total, which the termination proof establishes.
\<close>

function playNextFromSuggestions :: "env \<Rightarrow> state \<Rightarrow> state" where
  "playNextFromSuggestions E s =
     (if queue s \<noteq> [] \<and> index s < int (length (queue s)) - 1
      then (let s1 = s\<lparr>index := index s + 1\<rparr>
            in case jsAt (queue s1) (index s1) of
                 None \<Rightarrow> playNextFromSuggestions E s1
               | Some nextId \<Rightarrow>
                   if \<not> canPlaySong nextId (previouslyPlayed s1)
                   then playNextFromSuggestions E s1
                   else (let s2 = playSong E nextId True False s1
                         in s2\<lparr>baseSongId := jsOr (lastOrNull (queue s2)) (Some nextId)\<rparr>))
      else (let baseId = firstTruthy [lastOrNull (queue s), lastPlayedSongId s,
                                      lastOrNull (previouslyPlayed s), baseSongId s]
            in case baseId of
                 None \<Rightarrow> fallbackFreshSongsWithExclusion E s
               | Some b \<Rightarrow>
                   (let s1 = prefetchSuggestionsFor E b s
                    in if queue s1 \<noteq> []
                       then (let s2 = s1\<lparr>index := 0\<rparr>;
                                 nextId = hd (queue s2)
                             in if \<not> canPlaySong nextId (previouslyPlayed s2)
                                then playNextFromSuggestions E s2
                                else playSong E nextId True False s2)
                       else fallbackFreshSongsWithExclusion E s1)))"
  by pat_completeness auto
termination
proof (relation "measure (\<lambda>(E, s). nat (int (length (queue s)) - 1 - index s))")
  show "wf (measure (\<lambda>(E, s). nat (int (length (queue s)) - 1 - index s)))"
    by simp
next
  fix E :: env and s s1 :: state
  assume "queue s \<noteq> [] \<and> index s < int (length (queue s)) - 1" "s1 = s\<lparr>index := index s + 1\<rparr>"
  then show "((E, s1), E, s) \<in> measure (\<lambda>(E, s). nat (int (length (queue s)) - 1 - index s))"
    by simp
next
  fix E :: env and s s1 :: state
  assume "queue s \<noteq> [] \<and> index s < int (length (queue s)) - 1" "s1 = s\<lparr>index := index s + 1\<rparr>"
  then show "((E, s1), E, s) \<in> measure (\<lambda>(E, s). nat (int (length (queue s)) - 1 - index s))"
    by simp
next
  fix E :: env and s s1 s2 :: state and b nextId :: songId
  assume s1: "s1 = prefetchSuggestionsFor E b s" and ne: "queue s1 \<noteq> []"
    and s2: "s2 = s1\<lparr>index := 0\<rparr>" and nextId: "nextId = hd (queue s2)"
    and gate: "\<not> canPlaySong nextId (previouslyPlayed s2)"
  from ne s2 nextId have "nextId \<in> set (queue s1)" by simp
  with s1 have "truthy nextId \<and> nextId \<notin> set (previouslyPlayed s1)"
    using prefetch_queue_fresh by blast
  with s2 have "canPlaySong nextId (previouslyPlayed s2)"
    by (simp add: canPlaySong_fresh)
  with gate show "((E, s2), E, s) \<in> measure (\<lambda>(E, s). nat (int (length (queue s)) - 1 - index s))"
    by simp
qed

declare playNextFromSuggestions.simps [simp del]

text \<open>
  \<^verbatim>\<open>
  async function onEnded() {
    try {
      if (window.ZY_SETTINGS && window.ZY_SETTINGS.autoplay === false) return;
      await playNextFromSuggestions();
    } catch (err) { console.error(...); }
  }\<close>
\<close>

definition onEnded :: "env \<Rightarrow> state \<Rightarrow> state" where
  "onEnded E s = (if autoplay s = Some False then s else playNextFromSuggestions E s)"

text \<open>
  The handler of the previous-track button (and of the media session's
  \<^verbatim>\<open>previoustrack\<close> action):
  \<^verbatim>\<open>
    if (previouslyPlayed.length > 0) {
      const prevSongId = previouslyPlayed.pop();
      playSong(prevSongId, { fromHistory: true });
    }\<close>
\<close>

definition prevClicked :: "env \<Rightarrow> state \<Rightarrow> state" where
  "prevClicked E s =
     (if length (previouslyPlayed s) > 0
      then (let prevSongId = last (previouslyPlayed s);
                s1 = s\<lparr>previouslyPlayed := butlast (previouslyPlayed s)\<rparr>
            in playSong E prevSongId False True s1)
      else s)"

text \<open>
  An explicit selection, \<^verbatim>\<open>window._player.playSong(song.id)\<close> from the search
  results: \<^verbatim>\<open>playSong\<close> with the default options, followed by the
  \<^verbatim>\<open>prefetchSuggestionsFor\<close> call it started, which completes once its
  request is answered.
\<close>

definition playClicked :: "env \<Rightarrow> songId \<Rightarrow> state \<Rightarrow> state" where
  "playClicked E i s =
     (let s1 = playSong E i False False (s\<lparr>prefetchInFlight := None\<rparr>)
      in case prefetchInFlight s1 of
           None \<Rightarrow> s1
         | Some b \<Rightarrow> prefetchSuggestionsFor E b (s1\<lparr>prefetchInFlight := None\<rparr>))"

text \<open>
  The events of a session, after \<^verbatim>\<open>DOMContentLoaded\<close> has called
  \<^verbatim>\<open>recommender.init()\<close> once: the audio element's \<^verbatim>\<open>ended\<close>, the next
  and previous buttons, an explicit selection, and the autoplay toggle of the
  settings page (\<^verbatim>\<open>window.ZY_SETTINGS.autoplay = autoplayToggle.checked\<close>).
\<close>

datatype event = TrackEnded | NextClicked | PrevClicked | PlayClicked songId | AutoplayToggled bool

fun handleEvent :: "env \<Rightarrow> state \<Rightarrow> event \<Rightarrow> state" where
  "handleEvent E s TrackEnded = onEnded E s"
| "handleEvent E s NextClicked = playNextFromSuggestions E s"
| "handleEvent E s PrevClicked = prevClicked E s"
| "handleEvent E s (PlayClicked i) = playClicked E i s"
| "handleEvent E s (AutoplayToggled b) = s\<lparr>autoplay := Some b\<rparr>"

definition domContentLoaded :: "env \<Rightarrow> state \<Rightarrow> state" where
  "domContentLoaded E s = s\<lparr>tfjs := init E (tfjs s)\<rparr>"

definition runSession :: "env \<Rightarrow> event list \<Rightarrow> state" where
  "runSession E evs = foldl (handleEvent E) (domContentLoaded E initialState) evs"

section \<open>Reasoning about the decision procedure\<close>

text \<open>
  The two halves of \<^verbatim>\<open>playNextFromSuggestions\<close>, named for the proofs: the
  test that opens the queue-replay branch, and the refill branch with the
  outcome of its gate already decided.
\<close>

definition hasNext :: "state \<Rightarrow> bool" where
  "hasNext s = (queue s \<noteq> [] \<and> index s < int (length (queue s)) - 1)"

definition refill :: "env \<Rightarrow> state \<Rightarrow> state" where
  "refill E s =
     (case firstTruthy [lastOrNull (queue s), lastPlayedSongId s,
                        lastOrNull (previouslyPlayed s), baseSongId s] of
        None \<Rightarrow> fallbackFreshSongsWithExclusion E s
      | Some b \<Rightarrow>
          (let s1 = prefetchSuggestionsFor E b s
           in if queue s1 \<noteq> [] then playSong E (hd (queue s1)) True False (s1\<lparr>index := 0\<rparr>)
              else fallbackFreshSongsWithExclusion E s1))"

lemma playNext_exhausted: "\<not> hasNext s \<Longrightarrow> playNextFromSuggestions E s = refill E s"
proof -
  assume h: "\<not> hasNext s"
  have gate: "canPlaySong (hd (queue (prefetchSuggestionsFor E b s)))
                (previouslyPlayed (prefetchSuggestionsFor E b s))"
    if "queue (prefetchSuggestionsFor E b s) \<noteq> []" for b
  proof -
    from that have "hd (queue (prefetchSuggestionsFor E b s)) \<in> set (queue (prefetchSuggestionsFor E b s))"
      by simp
    then show ?thesis using prefetch_queue_fresh canPlaySong_fresh by blast
  qed
  from h have "playNextFromSuggestions E s =
     (let baseId = firstTruthy [lastOrNull (queue s), lastPlayedSongId s,
                                      lastOrNull (previouslyPlayed s), baseSongId s]
            in case baseId of
                 None \<Rightarrow> fallbackFreshSongsWithExclusion E s
               | Some b \<Rightarrow>
                   (let s1 = prefetchSuggestionsFor E b s
                    in if queue s1 \<noteq> []
                       then (let s2 = s1\<lparr>index := 0\<rparr>;
                                 nextId = hd (queue s2)
                             in if \<not> canPlaySong nextId (previouslyPlayed s2)
                                then playNextFromSuggestions E s2
                                else playSong E nextId True False s2)
                       else fallbackFreshSongsWithExclusion E s1))"
    using h unfolding hasNext_def
    by (subst playNextFromSuggestions.simps) (simp only: if_False)
  also have "\<dots> = refill E s"
    by (simp add: refill_def Let_def gate del: firstTruthy.simps split: option.split)
  finally show ?thesis .
qed

lemma playNext_step:
  "hasNext s \<Longrightarrow> playNextFromSuggestions E s =
     (case jsAt (queue s) (index s + 1) of
        None \<Rightarrow> playNextFromSuggestions E (s\<lparr>index := index s + 1\<rparr>)
      | Some nextId \<Rightarrow>
          if \<not> canPlaySong nextId (previouslyPlayed s)
          then playNextFromSuggestions E (s\<lparr>index := index s + 1\<rparr>)
          else (playSong E nextId True False (s\<lparr>index := index s + 1\<rparr>))
                 \<lparr>baseSongId := jsOr (lastOrNull (queue s)) (Some nextId)\<rparr>)"
  unfolding hasNext_def
  by (subst playNextFromSuggestions.simps) (simp add: Let_def split: option.split)

lemma playNext_induct [consumes 0, case_names exhausted skip play]:
  assumes exhausted: "\<And>s. \<not> hasNext s \<Longrightarrow> P s (refill E s)"
    and skip: "\<And>s. hasNext s \<Longrightarrow>
        (case jsAt (queue s) (index s + 1) of None \<Rightarrow> True
         | Some nextId \<Rightarrow> \<not> canPlaySong nextId (previouslyPlayed s)) \<Longrightarrow>
        P (s\<lparr>index := index s + 1\<rparr>) (playNextFromSuggestions E (s\<lparr>index := index s + 1\<rparr>)) \<Longrightarrow>
        P s (playNextFromSuggestions E (s\<lparr>index := index s + 1\<rparr>))"
    and play: "\<And>s nextId. hasNext s \<Longrightarrow> jsAt (queue s) (index s + 1) = Some nextId \<Longrightarrow>
        canPlaySong nextId (previouslyPlayed s) \<Longrightarrow>
        P s ((playSong E nextId True False (s\<lparr>index := index s + 1\<rparr>))
               \<lparr>baseSongId := jsOr (lastOrNull (queue s)) (Some nextId)\<rparr>)"
  shows "P s (playNextFromSuggestions E s)"
proof (induction "nat (int (length (queue s)) - 1 - index s)" arbitrary: s rule: less_induct)
  case less
  show ?case
  proof (cases "hasNext s")
    case False
    then show ?thesis using exhausted by (simp add: playNext_exhausted)
  next
    case True
    let ?s1 = "s\<lparr>index := index s + 1\<rparr>"
    from True have "nat (int (length (queue ?s1)) - 1 - index ?s1) < nat (int (length (queue s)) - 1 - index s)"
      by (simp add: hasNext_def)
    then have IH: "P ?s1 (playNextFromSuggestions E ?s1)" by (rule less)
    show ?thesis
    proof (cases "jsAt (queue s) (index s + 1)")
      case None
      with True skip [OF True _ IH] show ?thesis by (simp add: playNext_step)
    next
      case (Some nextId)
      show ?thesis
      proof (cases "canPlaySong nextId (previouslyPlayed s)")
        case False
        with True Some skip [OF True _ IH] show ?thesis by (simp add: playNext_step)
      next
        case c: True
        with True Some play [OF True Some c] show ?thesis by (simp add: playNext_step)
      qed
    qed
  qed
qed


subsection \<open>The recommender is never touched\<close>

lemma tfjs_fallback [simp]: "tfjs (fallbackFreshSongsWithExclusion E s) = tfjs s"
  by (cases rule: fallback_cases [of s E]) (simp_all add: afterFetches_fields)

lemma tfjs_prefetch [simp]: "tfjs (prefetchSuggestionsFor E b s) = tfjs s"
  by (simp add: prefetchSuggestionsFor_def Let_def split: fetched.split)

lemma tfjs_refill [simp]: "tfjs (refill E s) = tfjs s"
  by (simp add: refill_def Let_def del: firstTruthy.simps split: option.split)

lemma tfjs_playNext [simp]: "tfjs (playNextFromSuggestions E s) = tfjs s"
  by (induction rule: playNext_induct [where P = "\<lambda>s r. tfjs r = tfjs s"]) simp_all

lemma tfjs_handleEvent [simp]: "tfjs (handleEvent E s e) = tfjs s"
  by (cases e)
    (simp_all add: onEnded_def prevClicked_def playClicked_def Let_def split: option.split)

lemma tfjs_events [simp]: "tfjs (foldl (handleEvent E) s evs) = tfjs s"
  by (induction evs arbitrary: s) simp_all

lemma tfjs_runSession: "tfjs (runSession E evs) = init E newRecommender"
  by (simp add: runSession_def domContentLoaded_def initialState_def)

subsection \<open>The language counters follow the recorded plays\<close>

text \<open>
  The length of the current streak of a language: the number of most recent
  recorded plays, counted back from the last one, whose language (in lower
  case) is the given one.
\<close>

definition streak :: "string \<Rightarrow> song list \<Rightarrow> nat" where
  "streak lang songs = length (takeWhile (\<lambda>sg. toLowerCase (language sg) = lang) (rev songs))"

definition countersMatchStreaks :: "state \<Rightarrow> bool" where
  "countersMatchStreaks s =
     (hindiPlayCount s = streak ''hindi'' (recorded s)
      \<and> teluguPlayCount s = streak ''telugu'' (recorded s)
      \<and> marathiPlayCount s = streak ''marathi'' (recorded s))"

lemma streak_snoc:
  "streak lang (songs @ [sg]) = (if toLowerCase (language sg) = lang then streak lang songs + 1 else 0)"
  by (simp add: streak_def)

lemma counters_afterFetches:
  "s1 \<in> afterFetches s \<Longrightarrow> countersMatchStreaks s1 = countersMatchStreaks s"
  by (simp add: countersMatchStreaks_def afterFetches_fields)

lemma counters_recordPlay:
  "countersMatchStreaks s \<Longrightarrow> countersMatchStreaks (recordPlay i a fh sg s)"
  by (simp add: countersMatchStreaks_def recordPlay_def countLanguage_def Let_def streak_snoc)

lemma counters_playSong:
  assumes "countersMatchStreaks s"
  shows "countersMatchStreaks (playSong E i a fh s)"
proof -
  let ?s0 = "rememberLastPlayed i fh (s\<lparr>requested := requested s @ [i]\<rparr>)"
  from assms have s0: "countersMatchStreaks ?s0" by (simp add: countersMatchStreaks_def)
  show ?thesis
  proof (cases rule: playSong_cases [of i fh s E a])
    case (failed s1)
    with s0 show ?thesis by (simp add: counters_afterFetches)
  next
    case (played s1 sg)
    with s0 show ?thesis by (simp add: counters_afterFetches counters_recordPlay)
  qed
qed

lemma counters_fallback:
  assumes "countersMatchStreaks s"
  shows "countersMatchStreaks (fallbackFreshSongsWithExclusion E s)"
proof (cases rule: fallback_cases [of s E])
  case (quiet s1)
  with assms show ?thesis by (simp add: counters_afterFetches)
next
  case (play s1 c)
  with assms show ?thesis by (simp add: counters_afterFetches counters_playSong)
next
  case (cleared s1)
  with assms have "countersMatchStreaks s1" by (simp add: counters_afterFetches)
  with cleared show ?thesis by (simp add: countersMatchStreaks_def)
qed

lemma counters_prefetch:
  assumes "countersMatchStreaks s"
  shows "countersMatchStreaks (prefetchSuggestionsFor E b s)"
proof -
  let ?s1 = "s\<lparr>baseSongId := Some b, queue := [], index := - 1, tick := tick s + 1\<rparr>"
  from assms have s1: "countersMatchStreaks ?s1" by (simp add: countersMatchStreaks_def)
  then have "countersMatchStreaks (?s1\<lparr>queue := q, index := - 1\<rparr>)" for q
    by (simp add: countersMatchStreaks_def)
  with s1 show ?thesis
    by (simp add: prefetchSuggestionsFor_def Let_def counters_fallback split: fetched.split)
qed

lemma counters_refill:
  assumes "countersMatchStreaks s"
  shows "countersMatchStreaks (refill E s)"
proof -
  have "countersMatchStreaks (s1\<lparr>index := 0\<rparr>)" if "countersMatchStreaks s1" for s1
    using that by (simp add: countersMatchStreaks_def)
  with assms show ?thesis
    by (simp add: refill_def Let_def counters_fallback counters_prefetch counters_playSong
        del: firstTruthy.simps split: option.split)
qed

lemma counters_playNext:
  assumes "countersMatchStreaks s"
  shows "countersMatchStreaks (playNextFromSuggestions E s)"
proof -
  have adv: "countersMatchStreaks (s\<lparr>index := index s + 1\<rparr>)" if "countersMatchStreaks s" for s
    using that by (simp add: countersMatchStreaks_def)
  have "countersMatchStreaks s \<longrightarrow> countersMatchStreaks (playNextFromSuggestions E s)"
  proof (rule playNext_induct [where P = "\<lambda>s r. countersMatchStreaks s \<longrightarrow> countersMatchStreaks r"])
    fix s
    show "countersMatchStreaks s \<longrightarrow> countersMatchStreaks (refill E s)"
      by (simp add: counters_refill)
  next
    fix s
    assume "countersMatchStreaks (s\<lparr>index := index s + 1\<rparr>) \<longrightarrow>
      countersMatchStreaks (playNextFromSuggestions E (s\<lparr>index := index s + 1\<rparr>))"
    with adv show "countersMatchStreaks s \<longrightarrow>
      countersMatchStreaks (playNextFromSuggestions E (s\<lparr>index := index s + 1\<rparr>))"
      by blast
  next
    fix s nextId
    show "countersMatchStreaks s \<longrightarrow>
      countersMatchStreaks ((playSong E nextId True False (s\<lparr>index := index s + 1\<rparr>))
        \<lparr>baseSongId := jsOr (lastOrNull (queue s)) (Some nextId)\<rparr>)"
    proof
      assume "countersMatchStreaks s"
      then have "countersMatchStreaks (playSong E nextId True False (s\<lparr>index := index s + 1\<rparr>))"
        by (intro counters_playSong adv)
      then show "countersMatchStreaks ((playSong E nextId True False (s\<lparr>index := index s + 1\<rparr>))
        \<lparr>baseSongId := jsOr (lastOrNull (queue s)) (Some nextId)\<rparr>)"
        by (simp add: countersMatchStreaks_def)
    qed
  qed
  with assms show ?thesis by blast
qed

lemma counters_handleEvent:
  assumes "countersMatchStreaks s"
  shows "countersMatchStreaks (handleEvent E s e)"
proof (cases e)
  case TrackEnded
  with assms show ?thesis by (simp add: onEnded_def counters_playNext)
next
  case NextClicked
  with assms show ?thesis by (simp add: counters_playNext)
next
  case PrevClicked
  from assms have "countersMatchStreaks (s\<lparr>previouslyPlayed := butlast (previouslyPlayed s)\<rparr>)"
    by (simp add: countersMatchStreaks_def)
  with assms PrevClicked show ?thesis
    by (simp add: prevClicked_def Let_def counters_playSong)
next
  case (PlayClicked i)
  from assms have "countersMatchStreaks (s\<lparr>prefetchInFlight := None\<rparr>)"
    by (simp add: countersMatchStreaks_def)
  then have p: "countersMatchStreaks (playSong E i False False (s\<lparr>prefetchInFlight := None\<rparr>))"
    by (rule counters_playSong)
  then have "countersMatchStreaks ((playSong E i False False (s\<lparr>prefetchInFlight := None\<rparr>))\<lparr>prefetchInFlight := None\<rparr>)"
    by (simp add: countersMatchStreaks_def)
  with p PlayClicked show ?thesis
    by (simp add: playClicked_def Let_def counters_prefetch split: option.split)
next
  case (AutoplayToggled b)
  with assms show ?thesis by (simp add: countersMatchStreaks_def)
qed

lemma counters_events:
  "countersMatchStreaks s \<Longrightarrow> countersMatchStreaks (foldl (handleEvent E) s evs)"
  by (induction evs arbitrary: s) (simp_all add: counters_handleEvent)

lemma counters_runSession: "countersMatchStreaks (runSession E evs)"
  unfolding runSession_def
  by (rule counters_events)
    (simp add: countersMatchStreaks_def domContentLoaded_def initialState_def streak_def)

lemma streak_exclusive:
  "lang \<noteq> lang' \<Longrightarrow> streak lang songs = 0 \<or> streak lang' songs = 0"
  by (cases "rev songs") (auto simp: streak_def)


subsection \<open>The nearest-neighbour query\<close>


lemma mset_pickInOrder: "mset (pickInOrder ns xs) = mset xs"
proof (induction ns arbitrary: xs)
  case Nil
  show ?case by simp
next
  case (Cons n ns)
  show ?case
  proof (cases "xs = []")
    case True
    then show ?thesis by simp
  next
    case False
    let ?i = "n mod length xs"
    from False have i: "?i < length xs" by simp
    have "mset (pickInOrder (n # ns) xs) = {#xs ! ?i#} + mset (take ?i xs @ drop (Suc ?i) xs)"
      using False Cons.IH by (simp add: Let_def)
    also have "\<dots> = mset (take ?i xs @ xs ! ?i # drop (Suc ?i) xs)" by simp
    also have "\<dots> = mset xs" using i by (simp only: id_take_nth_drop [symmetric])
    finally show ?thesis .
  qed
qed


lemma length_sortByScore: "length (sortByScore E results) = length results"
proof (cases "list_all (\<lambda>x. isFinite (snd x)) results")
  case True
  then show ?thesis by (simp add: sortByScore_def)
next
  case False
  then have "sortByScore E results = pickInOrder (engineSortOrder E results) results"
    by (simp add: sortByScore_def)
  then show ?thesis using mset_pickInOrder [of "engineSortOrder E results" results]
    by (metis size_mset)
qed





lemma sorted_wrt_take: "sorted_wrt P xs \<Longrightarrow> sorted_wrt P (take n xs)"
  by (metis append_take_drop_id sorted_wrt_append)


subsection \<open>Which identifiers an operation hands to playSong\<close>

text \<open>
  \<open>requestsOnly A s r\<close>: the state \<open>r\<close> extends the list of identifiers
  handed to \<^verbatim>\<open>playSong\<close> in \<open>s\<close>, and only by members of \<open>A\<close>.
\<close>

definition requestsOnly :: "songId set \<Rightarrow> state \<Rightarrow> state \<Rightarrow> bool" where
  "requestsOnly A s r = (\<exists>new. requested r = requested s @ new \<and> set new \<subseteq> A)"

lemma requestsOnly_same: "requested r = requested s \<Longrightarrow> requestsOnly A s r"
  by (simp add: requestsOnly_def)

lemma requestsOnly_trans:
  "requestsOnly A s r \<Longrightarrow> requestsOnly A r t \<Longrightarrow> requestsOnly A s t"
  unfolding requestsOnly_def by force

lemma requestsOnly_playSong:
  "requested s1 = requested s \<Longrightarrow> i \<in> A \<Longrightarrow> requestsOnly A s (playSong E i a fh s1)"
  by (simp add: requestsOnly_def)

lemma requestsOnly_drop:
  "requestsOnly A s r \<Longrightarrow> set (drop (length (requested s)) (requested r)) \<subseteq> A"
  by (auto simp: requestsOnly_def)

text \<open>
  \<open>knownPlayed X s\<close>: the exclusion set of \<open>s\<close> holds \<open>X\<close> on account of the
  last-played identifier or the history (or \<open>X\<close> is no identifier at all).
\<close>

definition knownPlayed :: "songId \<Rightarrow> state \<Rightarrow> bool" where
  "knownPlayed X s =
     (\<not> truthy X \<or> lastPlayedSongId s = Some X \<or> X \<in> set (previouslyPlayed s))"

lemma knownPlayed_excluded:
  "knownPlayed X s \<Longrightarrow> truthy c \<Longrightarrow> c \<notin> getExclusionSet s \<Longrightarrow> c \<noteq> X"
  by (auto simp: knownPlayed_def getExclusionSet_def)

lemma knownPlayed_last: "lastPlayedSongId s = Some X \<Longrightarrow> knownPlayed X s"
  by (simp add: knownPlayed_def)

lemma knownPlayed_afterFetches:
  "s1 \<in> afterFetches s \<Longrightarrow> knownPlayed X s1 = knownPlayed X s"
  by (simp add: knownPlayed_def afterFetches_fields)

lemma mem_clamp_add: "truthy X \<Longrightarrow> X \<in> set (clampHistory (addToHistory X h))"
proof -
  assume t: "truthy X"
  have a: "addToHistory X h \<noteq> [] \<and> last (addToHistory X h) = X"
    using t by (auto simp: addToHistory_def shiftWhileOver_drop maxHistorySize_def)
  then have "length (addToHistory X h) - maxHistory < length (addToHistory X h)"
    by (cases "addToHistory X h") (simp_all add: maxHistory_def)
  then have "clampHistory (addToHistory X h) \<noteq> [] \<and> last (clampHistory (addToHistory X h)) = X"
    using a by (simp add: clampHistory_def shiftWhileOver_drop)
  then show ?thesis using last_in_set by metis
qed

lemma playSong_keeps_known:
  assumes "lastPlayedSongId s = Some X"
  shows "knownPlayed X (playSong E i a False s)"
proof (cases rule: playSong_cases [of i False s E a])
  case (failed s1)
  with assms show ?thesis by (simp add: knownPlayed_def afterFetches_fields)
next
  case (played s1 sg)
  from played(1) assms have h: "previouslyPlayed s1 =
      (if truthy X \<and> X \<noteq> i then clampHistory (addToHistory X (previouslyPlayed s))
       else previouslyPlayed s)"
    by (simp add: afterFetches_fields rememberLastPlayed_def)
  show ?thesis
  proof (cases "truthy X \<and> X \<noteq> i")
    case True
    with h played(3) show ?thesis by (simp add: knownPlayed_def mem_clamp_add)
  next
    case False
    with played(3) show ?thesis by (auto simp: knownPlayed_def)
  qed
qed

lemma fallback_known:
  assumes "knownPlayed X s"
  shows "requestsOnly (- {X}) s (fallbackFreshSongsWithExclusion E s)"
proof (cases rule: fallback_cases [of s E])
  case (quiet s1)
  then show ?thesis by (simp add: requestsOnly_same afterFetches_fields)
next
  case (play s1 c)
  from knownPlayed_excluded [OF assms play(2,3)] play(1,4) show ?thesis
    by (simp add: requestsOnly_playSong afterFetches_fields)
next
  case (cleared s1)
  then show ?thesis by (simp add: requestsOnly_same afterFetches_fields)
qed

lemma fallback_self:
  assumes "lastPlayedSongId s = Some X"
  shows "knownPlayed X (fallbackFreshSongsWithExclusion E s)"
proof (cases rule: fallback_cases [of s E])
  case (quiet s1)
  with assms show ?thesis by (simp add: knownPlayed_def afterFetches_fields)
next
  case (play s1 c)
  with assms have "lastPlayedSongId s1 = Some X" by (simp add: afterFetches_fields)
  with play(4) show ?thesis by (simp add: playSong_keeps_known)
next
  case (cleared s1)
  with assms show ?thesis by (simp add: knownPlayed_def afterFetches_fields)
qed

lemma prefetch_self:
  assumes "lastPlayedSongId s = Some X"
  shows "requestsOnly (- {X}) s (prefetchSuggestionsFor E b s)
         \<and> knownPlayed X (prefetchSuggestionsFor E b s)
         \<and> X \<notin> set (queue (prefetchSuggestionsFor E b s))"
proof -
  let ?s1 = "s\<lparr>baseSongId := Some b, queue := [], index := - 1, tick := tick s + 1\<rparr>"
  have l1: "lastPlayedSongId ?s1 = Some X" using assms by simp
  have fb: "requestsOnly (- {X}) s (fallbackFreshSongsWithExclusion E ?s1)
         \<and> knownPlayed X (fallbackFreshSongsWithExclusion E ?s1)
         \<and> X \<notin> set (queue (fallbackFreshSongsWithExclusion E ?s1))"
  proof -
    have "requestsOnly (- {X}) ?s1 (fallbackFreshSongsWithExclusion E ?s1)"
      by (rule fallback_known [OF knownPlayed_last [OF l1]])
    then have "requestsOnly (- {X}) s (fallbackFreshSongsWithExclusion E ?s1)"
      by (simp add: requestsOnly_def)
    moreover have "queue (fallbackFreshSongsWithExclusion E ?s1) = []"
      by (rule queue_fallback_empty) simp
    ultimately show ?thesis using fallback_self [OF l1] by simp
  qed
  show ?thesis
  proof (cases "suggestionsApi E (tick s) b")
    case FetchFailed
    with fb show ?thesis by (simp add: prefetchSuggestionsFor_def)
  next
    case (Fetched dataIds)
    show ?thesis
    proof (cases "dataIds = []")
      case True
      with Fetched fb show ?thesis by (simp add: prefetchSuggestionsFor_def)
    next
      case False
      let ?r = "?s1\<lparr>queue := filter (\<lambda>i. truthy i \<and> i \<notin> getExclusionSet ?s1) dataIds, index := - 1\<rparr>"
      from Fetched False have r: "prefetchSuggestionsFor E b s = ?r"
        by (simp add: prefetchSuggestionsFor_def Let_def)
      have "requestsOnly (- {X}) s ?r" by (simp add: requestsOnly_same)
      moreover have "knownPlayed X ?r" using assms by (simp add: knownPlayed_def)
      moreover have "X \<notin> set (queue ?r)"
        using assms by (auto simp: getExclusionSet_def)
      ultimately show ?thesis using r by simp
    qed
  qed
qed

lemma refill_self:
  assumes "lastPlayedSongId s = Some X"
  shows "requestsOnly (- {X}) s (refill E s)"
proof (cases "firstTruthy [lastOrNull (queue s), lastPlayedSongId s,
                        lastOrNull (previouslyPlayed s), baseSongId s]")
  case None
  then have "refill E s = fallbackFreshSongsWithExclusion E s" by (simp add: refill_def)
  with fallback_known [OF knownPlayed_last [OF assms]] show ?thesis by simp
next
  case (Some b)
  let ?s1 = "prefetchSuggestionsFor E b s"
  note p = prefetch_self [OF assms, of E b]
  show ?thesis
  proof (cases "queue ?s1 = []")
    case True
    with Some have "refill E s = fallbackFreshSongsWithExclusion E ?s1"
      by (simp add: refill_def Let_def)
    moreover from p have "requestsOnly (- {X}) ?s1 (fallbackFreshSongsWithExclusion E ?s1)"
      by (simp add: fallback_known)
    ultimately show ?thesis using p requestsOnly_trans by metis
  next
    case False
    with Some have r: "refill E s = playSong E (hd (queue ?s1)) True False (?s1\<lparr>index := 0\<rparr>)"
      by (simp add: refill_def Let_def)
    from False p have "hd (queue ?s1) \<noteq> X" by (metis hd_in_set)
    then have "requestsOnly (- {X}) ?s1 (playSong E (hd (queue ?s1)) True False (?s1\<lparr>index := 0\<rparr>))"
      by (simp add: requestsOnly_playSong)
    with r p requestsOnly_trans show ?thesis by metis
  qed
qed

lemma playNext_self:
  "lastPlayedSongId s = Some X \<and> X \<notin> set (drop (nat (index s + 1)) (queue s)) \<longrightarrow>
     requestsOnly (- {X}) s (playNextFromSuggestions E s)"
proof (rule playNext_induct [where P = "\<lambda>s r. lastPlayedSongId s = Some X \<and>
      X \<notin> set (drop (nat (index s + 1)) (queue s)) \<longrightarrow> requestsOnly (- {X}) s r"])
  fix s
  show "lastPlayedSongId s = Some X \<and> X \<notin> set (drop (nat (index s + 1)) (queue s)) \<longrightarrow>
        requestsOnly (- {X}) s (refill E s)"
    by (simp add: refill_self)
next
  fix s :: state
  let ?s1 = "s\<lparr>index := index s + 1\<rparr>"
  assume IH: "lastPlayedSongId ?s1 = Some X \<and> X \<notin> set (drop (nat (index ?s1 + 1)) (queue ?s1)) \<longrightarrow>
        requestsOnly (- {X}) ?s1 (playNextFromSuggestions E ?s1)"
  show "lastPlayedSongId s = Some X \<and> X \<notin> set (drop (nat (index s + 1)) (queue s)) \<longrightarrow>
        requestsOnly (- {X}) s (playNextFromSuggestions E ?s1)"
  proof
    assume a: "lastPlayedSongId s = Some X \<and> X \<notin> set (drop (nat (index s + 1)) (queue s))"
    have "set (drop (nat (index s + 1 + 1)) (queue s)) \<subseteq> set (drop (nat (index s + 1)) (queue s))"
      by (rule set_drop_subset_set_drop) simp
    with a IH have "requestsOnly (- {X}) ?s1 (playNextFromSuggestions E ?s1)" by auto
    then show "requestsOnly (- {X}) s (playNextFromSuggestions E ?s1)"
      by (simp add: requestsOnly_def)
  qed
next
  fix s :: state and nextId
  assume n: "jsAt (queue s) (index s + 1) = Some nextId"
  show "lastPlayedSongId s = Some X \<and> X \<notin> set (drop (nat (index s + 1)) (queue s)) \<longrightarrow>
        requestsOnly (- {X}) s ((playSong E nextId True False (s\<lparr>index := index s + 1\<rparr>))
               \<lparr>baseSongId := jsOr (lastOrNull (queue s)) (Some nextId)\<rparr>)"
  proof
    assume a: "lastPlayedSongId s = Some X \<and> X \<notin> set (drop (nat (index s + 1)) (queue s))"
    from n have "nat (index s + 1) < length (queue s)" "nextId = queue s ! nat (index s + 1)"
      by (auto simp: jsAt_def split: if_splits)
    then have "nextId \<in> set (drop (nat (index s + 1)) (queue s))"
      by (metis Cons_nth_drop_Suc list.set_intros(1))
    with a have "nextId \<noteq> X" by auto
    then show "requestsOnly (- {X}) s ((playSong E nextId True False (s\<lparr>index := index s + 1\<rparr>))
               \<lparr>baseSongId := jsOr (lastOrNull (queue s)) (Some nextId)\<rparr>)"
      by (simp add: requestsOnly_def)
  qed
qed

subsection \<open>An invariant of every session\<close>

text \<open>
  Every identifier in the history is truthy and has its song in the cache, so
  has a truthy last-played identifier; the queue holds truthy identifiers
  only; and the cursor lies between \<open>-1\<close> and the last position of the queue.
\<close>

definition sessionInv :: "state \<Rightarrow> bool" where
  "sessionInv s =
     ((\<forall>x \<in> set (previouslyPlayed s). truthy x \<and> songCache s x \<noteq> None)
      \<and> (\<forall>l. lastPlayedSongId s = Some l \<and> truthy l \<longrightarrow> songCache s l \<noteq> None)
      \<and> (\<forall>x \<in> set (queue s). truthy x)
      \<and> - 1 \<le> index s \<and> index s < int (length (queue s)))"

lemma map_le_cached: "m \<subseteq>\<^sub>m m' \<Longrightarrow> m x \<noteq> None \<Longrightarrow> m' x \<noteq> None"
  by (metis domIff map_le_def)

lemma inv_afterFetches:
  assumes "s1 \<in> afterFetches s" "sessionInv s"
  shows "sessionInv s1"
proof -
  from assms(1) have le: "songCache s \<subseteq>\<^sub>m songCache s1" by (rule afterFetches_fields)
  have c: "songCache s1 x \<noteq> None" if "songCache s x \<noteq> None" for x
    using map_le_cached [OF le that] .
  from assms(2) have "\<forall>x \<in> set (previouslyPlayed s). truthy x \<and> songCache s1 x \<noteq> None"
    "\<forall>l. lastPlayedSongId s = Some l \<and> truthy l \<longrightarrow> songCache s1 l \<noteq> None"
    unfolding sessionInv_def using c by blast+
  with assms show ?thesis
    by (simp add: sessionInv_def afterFetches_fields)
qed

lemma set_addToHistory: "set (addToHistory l h) \<subseteq> insert l (set h)"
proof -
  have "set (drop k (h @ [l])) \<subseteq> insert l (set h)" for k
    using set_drop_subset [of k "h @ [l]"] by auto
  then show ?thesis
    by (auto simp: addToHistory_def shiftWhileOver_drop simp del: drop_append)
qed

lemma set_clamp_add: "set (clampHistory (addToHistory l h)) \<subseteq> insert l (set h)"
proof -
  have "set (clampHistory (addToHistory l h)) \<subseteq> set (addToHistory l h)"
    by (simp add: clampHistory_def shiftWhileOver_drop set_drop_subset)
  with set_addToHistory [of l h] show ?thesis by blast
qed

lemma inv_rememberLastPlayed:
  assumes "sessionInv s"
  shows "sessionInv (rememberLastPlayed i fh s)"
proof (cases "lastPlayedSongId s")
  case None
  with assms show ?thesis by (simp add: rememberLastPlayed_def)
next
  case (Some l)
  show ?thesis
  proof (cases "\<not> fh \<and> truthy l \<and> l \<noteq> i")
    case False
    with Some assms show ?thesis by (auto simp: rememberLastPlayed_def)
  next
    case True
    with Some have r: "rememberLastPlayed i fh s =
        s\<lparr>previouslyPlayed := clampHistory (addToHistory l (previouslyPlayed s))\<rparr>"
      by (simp add: rememberLastPlayed_def)
    from assms Some True have "\<forall>x \<in> insert l (set (previouslyPlayed s)). truthy x \<and> songCache s x \<noteq> None"
      by (auto simp: sessionInv_def)
    with set_clamp_add [of l "previouslyPlayed s"]
    have "\<forall>x \<in> set (clampHistory (addToHistory l (previouslyPlayed s))). truthy x \<and> songCache s x \<noteq> None"
      by blast
    with assms show ?thesis unfolding r sessionInv_def by simp
  qed
qed

lemma inv_recordPlay:
  assumes "sessionInv s" "songCache s i \<noteq> None"
  shows "sessionInv (recordPlay i a fh sg s)"
  using assms by (auto simp: sessionInv_def recordPlay_def countLanguage_def Let_def)

lemma inv_playSong:
  assumes "sessionInv s"
  shows "sessionInv (playSong E i a fh s)"
proof -
  let ?s0 = "rememberLastPlayed i fh (s\<lparr>requested := requested s @ [i]\<rparr>)"
  from assms have "sessionInv (s\<lparr>requested := requested s @ [i]\<rparr>)" by (simp add: sessionInv_def)
  then have s0: "sessionInv ?s0" by (rule inv_rememberLastPlayed)
  show ?thesis
  proof (cases rule: playSong_cases [of i fh s E a])
    case (failed s1)
    with s0 show ?thesis by (simp add: inv_afterFetches)
  next
    case (played s1 sg)
    with s0 show ?thesis by (simp add: inv_afterFetches inv_recordPlay)
  qed
qed

lemma inv_fallback:
  assumes "sessionInv s"
  shows "sessionInv (fallbackFreshSongsWithExclusion E s)"
proof (cases rule: fallback_cases [of s E])
  case (quiet s1)
  with assms show ?thesis by (simp add: inv_afterFetches)
next
  case (play s1 c)
  with assms show ?thesis by (simp add: inv_afterFetches inv_playSong)
next
  case (cleared s1)
  with assms have "sessionInv s1" by (simp add: inv_afterFetches)
  with cleared show ?thesis by (simp add: sessionInv_def)
qed

lemma inv_prefetch:
  assumes "sessionInv s"
  shows "sessionInv (prefetchSuggestionsFor E b s)"
proof -
  let ?s1 = "s\<lparr>baseSongId := Some b, queue := [], index := - 1, tick := tick s + 1\<rparr>"
  from assms have s1: "sessionInv ?s1" by (simp add: sessionInv_def)
  then have "sessionInv (?s1\<lparr>queue := filter (\<lambda>i. truthy i \<and> i \<notin> ex) q, index := - 1\<rparr>)" for q ex
    by (simp add: sessionInv_def)
  with s1 show ?thesis
    by (simp add: prefetchSuggestionsFor_def Let_def inv_fallback split: fetched.split)
qed

lemma inv_refill:
  assumes "sessionInv s"
  shows "sessionInv (refill E s)"
proof -
  have "sessionInv (s1\<lparr>index := 0\<rparr>)" if "sessionInv s1" "queue s1 \<noteq> []" for s1
    using that by (simp add: sessionInv_def)
  with assms show ?thesis
    by (simp add: refill_def Let_def inv_fallback inv_prefetch inv_playSong
        del: firstTruthy.simps split: option.split)
qed

lemma inv_playNext:
  assumes "sessionInv s"
  shows "sessionInv (playNextFromSuggestions E s)"
proof -
  have adv: "sessionInv (s\<lparr>index := index s + 1\<rparr>)" if "sessionInv s" "hasNext s" for s
    using that by (simp add: sessionInv_def hasNext_def)
  have "sessionInv s \<longrightarrow> sessionInv (playNextFromSuggestions E s)"
  proof (rule playNext_induct [where P = "\<lambda>s r. sessionInv s \<longrightarrow> sessionInv r"])
    fix s
    show "sessionInv s \<longrightarrow> sessionInv (refill E s)" by (simp add: inv_refill)
  next
    fix s :: state
    assume "hasNext s"
      "sessionInv (s\<lparr>index := index s + 1\<rparr>) \<longrightarrow>
        sessionInv (playNextFromSuggestions E (s\<lparr>index := index s + 1\<rparr>))"
    with adv show "sessionInv s \<longrightarrow> sessionInv (playNextFromSuggestions E (s\<lparr>index := index s + 1\<rparr>))"
      by blast
  next
    fix s :: state and nextId
    assume h: "hasNext s"
    show "sessionInv s \<longrightarrow> sessionInv ((playSong E nextId True False (s\<lparr>index := index s + 1\<rparr>))
               \<lparr>baseSongId := jsOr (lastOrNull (queue s)) (Some nextId)\<rparr>)"
    proof
      assume "sessionInv s"
      with h have "sessionInv (playSong E nextId True False (s\<lparr>index := index s + 1\<rparr>))"
        by (intro inv_playSong adv)
      then show "sessionInv ((playSong E nextId True False (s\<lparr>index := index s + 1\<rparr>))
               \<lparr>baseSongId := jsOr (lastOrNull (queue s)) (Some nextId)\<rparr>)"
        by (simp add: sessionInv_def)
    qed
  qed
  with assms show ?thesis by blast
qed

lemma inv_handleEvent:
  assumes "sessionInv s"
  shows "sessionInv (handleEvent E s e)"
proof (cases e)
  case TrackEnded
  with assms show ?thesis by (simp add: onEnded_def inv_playNext)
next
  case NextClicked
  with assms show ?thesis by (simp add: inv_playNext)
next
  case PrevClicked
  from assms have "sessionInv (s\<lparr>previouslyPlayed := butlast (previouslyPlayed s)\<rparr>)"
    by (auto simp: sessionInv_def dest: in_set_butlastD)
  with assms PrevClicked show ?thesis
    by (simp add: prevClicked_def Let_def inv_playSong)
next
  case (PlayClicked i)
  from assms have "sessionInv (s\<lparr>prefetchInFlight := None\<rparr>)" by (simp add: sessionInv_def)
  then have p: "sessionInv (playSong E i False False (s\<lparr>prefetchInFlight := None\<rparr>))"
    by (rule inv_playSong)
  then have "sessionInv ((playSong E i False False (s\<lparr>prefetchInFlight := None\<rparr>))\<lparr>prefetchInFlight := None\<rparr>)"
    by (simp add: sessionInv_def)
  with p PlayClicked show ?thesis
    by (simp add: playClicked_def Let_def inv_prefetch split: option.split)
next
  case (AutoplayToggled b)
  with assms show ?thesis by (simp add: sessionInv_def)
qed

lemma inv_events: "sessionInv s \<Longrightarrow> sessionInv (foldl (handleEvent E) s evs)"
  by (induction evs arbitrary: s) (simp_all add: inv_handleEvent)

lemma inv_runSession: "sessionInv (runSession E evs)"
  unfolding runSession_def
  by (rule inv_events) (simp add: sessionInv_def domContentLoaded_def initialState_def)


subsection \<open>A decision when every source is dry\<close>

text \<open>
  Every suggestion request is answered with the empty list and every catalog
  search with an empty result.
\<close>

definition dry :: "env \<Rightarrow> bool" where
  "dry E = ((\<forall>t i. suggestionsApi E t i = Fetched []) \<and> (\<forall>t q n. searchApi E t q n = Fetched []))"

text \<open>No identifier of the queue beyond the cursor passes the repeat gate.\<close>

definition noPlayableQueued :: "state \<Rightarrow> bool" where
  "noPlayableQueued s =
     (\<forall>x \<in> set (drop (nat (index s + 1)) (queue s)). \<not> canPlaySong x (previouslyPlayed s))"

text \<open>
  Nothing was handed to \<^verbatim>\<open>playSong\<close>, the history, the queue and the cursor
  are reset, and at most \<open>n\<close> requests were made.
\<close>

definition drained :: "nat \<Rightarrow> state \<Rightarrow> state \<Rightarrow> bool" where
  "drained n s r =
     (requested r = requested s \<and> previouslyPlayed r = [] \<and> queue r = [] \<and> index r = - 1
      \<and> tick r \<le> tick s + n)"

lemma fetchPopularRandomSong_dry:
  "dry E \<Longrightarrow> fetchPopularRandomSong E ex s = (Fetched None, s\<lparr>tick := tick s + 1\<rparr>)"
  by (simp add: dry_def fetchPopularRandomSong_def)

lemma fallback_dry:
  assumes d: "dry E" and i: "sessionInv s" and q: "queue s = []"
  shows "drained 2 s (fallbackFreshSongsWithExclusion E s)"
proof (cases "firstTruthy [lastPlayedSongId s, lastOrNull (previouslyPlayed s)]")
  case None
  from firstTruthy_None [OF None, of "lastOrNull (previouslyPlayed s)"]
  have "\<not> truthyOpt (lastOrNull (previouslyPlayed s))" by simp
  with i have h: "previouslyPlayed s = []"
    by (auto simp: sessionInv_def lastOrNull_def split: if_splits)
  from i q have x: "index s = - 1" by (simp add: sessionInv_def)
  from None d have "fallbackFreshSongsWithExclusion E s = s\<lparr>tick := tick s + 1\<rparr>"
    by (simp add: fallbackFreshSongsWithExclusion_def Let_def fetchPopularRandomSong_dry
        del: firstTruthy.simps)
  with h q x show ?thesis by (simp add: drained_def)
next
  case (Some b)
  from firstTruthy_Some [OF Some] have b: "truthy b"
    "lastPlayedSongId s = Some b \<or> lastOrNull (previouslyPlayed s) = Some b"
    by auto
  from b i have "songCache s b \<noteq> None"
    by (auto simp: sessionInv_def lastOrNull_def split: if_splits)
  then obtain sg where c: "songCache s b = Some sg" by blast
  then have l: "loadSong E b s = (Fetched (Some sg), s)" by (simp add: loadSong_def)
  from d have sr: "searchApi E (tick s) (fallbackQuery (Some sg)) 40 = Fetched []"
    by (simp add: dry_def)
  from Some l sr d have "fallbackFreshSongsWithExclusion E s =
      s\<lparr>tick := tick s + 1 + 1, previouslyPlayed := [], queue := [], index := - 1\<rparr>"
    by (simp add: fallbackFreshSongsWithExclusion_def Let_def fetchPopularRandomSong_dry
        del: firstTruthy.simps)
  then show ?thesis by (simp add: drained_def)
qed

lemma prefetch_dry:
  assumes d: "dry E" and i: "sessionInv s"
  shows "drained 3 s (prefetchSuggestionsFor E b s)"
proof -
  let ?s1 = "s\<lparr>baseSongId := Some b, queue := [], index := - 1, tick := tick s + 1\<rparr>"
  from i have "sessionInv ?s1" by (simp add: sessionInv_def)
  with d have "drained 2 ?s1 (fallbackFreshSongsWithExclusion E ?s1)"
    by (intro fallback_dry) simp_all
  then have "drained 3 s (fallbackFreshSongsWithExclusion E ?s1)"
    by (simp add: drained_def)
  with d show ?thesis by (simp add: prefetchSuggestionsFor_def dry_def)
qed

lemma refill_dry:
  assumes d: "dry E" and i: "sessionInv s" and h: "\<not> hasNext s"
  shows "drained 5 s (refill E s)"
proof (cases "firstTruthy [lastOrNull (queue s), lastPlayedSongId s,
                        lastOrNull (previouslyPlayed s), baseSongId s]")
  case None
  from firstTruthy_None [OF None, of "lastOrNull (queue s)"]
  have "\<not> truthyOpt (lastOrNull (queue s))" by simp
  with i have "queue s = []" by (auto simp: sessionInv_def lastOrNull_def split: if_splits)
  with d i have "drained 2 s (fallbackFreshSongsWithExclusion E s)" by (intro fallback_dry)
  with None show ?thesis by (simp add: refill_def drained_def)
next
  case (Some b)
  let ?s1 = "prefetchSuggestionsFor E b s"
  from prefetch_dry [OF d i, of b] have p: "drained 3 s ?s1" .
  then have q: "queue ?s1 = []" by (simp add: drained_def)
  with d inv_prefetch [OF i, of E b] have "drained 2 ?s1 (fallbackFreshSongsWithExclusion E ?s1)"
    by (intro fallback_dry)
  with p have "drained 5 s (fallbackFreshSongsWithExclusion E ?s1)" by (simp add: drained_def)
  with Some q show ?thesis by (simp add: refill_def Let_def)
qed

lemma playNext_dry:
  assumes d: "dry E"
  shows "sessionInv s \<and> noPlayableQueued s \<longrightarrow> drained 5 s (playNextFromSuggestions E s)"
proof (rule playNext_induct [where P = "\<lambda>s r. sessionInv s \<and> noPlayableQueued s \<longrightarrow> drained 5 s r"])
  fix s
  assume "\<not> hasNext s"
  then show "sessionInv s \<and> noPlayableQueued s \<longrightarrow> drained 5 s (refill E s)"
    using d by (simp add: refill_dry)
next
  fix s :: state
  let ?s1 = "s\<lparr>index := index s + 1\<rparr>"
  assume h: "hasNext s"
    and IH: "sessionInv ?s1 \<and> noPlayableQueued ?s1 \<longrightarrow> drained 5 ?s1 (playNextFromSuggestions E ?s1)"
  show "sessionInv s \<and> noPlayableQueued s \<longrightarrow> drained 5 s (playNextFromSuggestions E ?s1)"
  proof
    assume a: "sessionInv s \<and> noPlayableQueued s"
    with h have "sessionInv ?s1" by (simp add: sessionInv_def hasNext_def)
    moreover have "set (drop (nat (index s + 1 + 1)) (queue s)) \<subseteq> set (drop (nat (index s + 1)) (queue s))"
      by (rule set_drop_subset_set_drop) simp
    with a have "noPlayableQueued ?s1" by (auto simp: noPlayableQueued_def)
    ultimately have "drained 5 ?s1 (playNextFromSuggestions E ?s1)" using IH by blast
    then show "drained 5 s (playNextFromSuggestions E ?s1)" by (simp add: drained_def)
  qed
next
  fix s :: state and nextId
  assume n: "jsAt (queue s) (index s + 1) = Some nextId"
    and c: "canPlaySong nextId (previouslyPlayed s)"
  from n have "nat (index s + 1) < length (queue s)" "nextId = queue s ! nat (index s + 1)"
    by (auto simp: jsAt_def split: if_splits)
  then have "nextId \<in> set (drop (nat (index s + 1)) (queue s))"
    by (metis Cons_nth_drop_Suc list.set_intros(1))
  with c have "\<not> noPlayableQueued s" by (auto simp: noPlayableQueued_def)
  then show "sessionInv s \<and> noPlayableQueued s \<longrightarrow>
        drained 5 s ((playSong E nextId True False (s\<lparr>index := index s + 1\<rparr>))
               \<lparr>baseSongId := jsOr (lastOrNull (queue s)) (Some nextId)\<rparr>)"
    by simp
qed

subsection \<open>With dry sources the queue stays empty\<close>

lemma queue_playSong: "queue s = [] \<Longrightarrow> queue (playSong E i a fh s) = []"
  by (cases rule: playSong_cases [of i fh s E a])
    (simp_all add: afterFetches_fields recordPlay_def countLanguage_def Let_def)

lemma queue_prefetch_dry: "dry E \<Longrightarrow> queue (prefetchSuggestionsFor E b s) = []"
  by (simp add: prefetchSuggestionsFor_def dry_def queue_fallback_empty)

lemma queue_refill_dry: "dry E \<Longrightarrow> queue s = [] \<Longrightarrow> queue (refill E s) = []"
  by (simp add: refill_def Let_def queue_prefetch_dry queue_fallback_empty
      del: firstTruthy.simps split: option.split)

lemma queue_playNext_dry: "dry E \<Longrightarrow> queue s = [] \<Longrightarrow> queue (playNextFromSuggestions E s) = []"
  by (simp add: playNext_exhausted hasNext_def queue_refill_dry)

lemma queue_handleEvent_dry:
  assumes "dry E" "queue s = []"
  shows "queue (handleEvent E s e) = []"
proof (cases e)
  case (PlayClicked i)
  with assms show ?thesis
    by (simp add: playClicked_def Let_def queue_playSong queue_prefetch_dry split: option.split)
qed (use assms in \<open>simp_all add: onEnded_def queue_playNext_dry prevClicked_def Let_def queue_playSong\<close>)

lemma queue_events_dry: "dry E \<Longrightarrow> queue s = [] \<Longrightarrow> queue (foldl (handleEvent E) s evs) = []"
  by (induction evs arbitrary: s) (simp_all add: queue_handleEvent_dry)

lemma queue_runSession_dry: "dry E \<Longrightarrow> queue (runSession E evs) = []"
  unfolding runSession_def
  by (rule queue_events_dry) (simp_all add: domContentLoaded_def initialState_def)

subsection \<open>The decision never reads the language counters\<close>

text \<open>\<open>sameButCounts s r\<close>: the states agree on every field other than the three language counters.\<close>

definition sameButCounts :: "state \<Rightarrow> state \<Rightarrow> bool" where
  "sameButCounts s r =
     (r = s\<lparr>hindiPlayCount := hindiPlayCount r, teluguPlayCount := teluguPlayCount r,
            marathiPlayCount := marathiPlayCount r\<rparr>)"

lemma sameButCountsI:
  "r = s\<lparr>hindiPlayCount := a, teluguPlayCount := b, marathiPlayCount := c\<rparr> \<Longrightarrow> sameButCounts s r"
  by (simp add: sameButCounts_def)

lemma sameButCountsE:
  assumes "sameButCounts s r"
  obtains a b c where "r = s\<lparr>hindiPlayCount := a, teluguPlayCount := b, marathiPlayCount := c\<rparr>"
  using assms unfolding sameButCounts_def by blast

lemma sameButCounts_refl [simp]: "sameButCounts s s"
  by (rule sameButCountsI [where a = "hindiPlayCount s" and b = "teluguPlayCount s"
        and c = "marathiPlayCount s"]) simp

lemma sameButCounts_loadSong:
  assumes "sameButCounts s r"
  shows "fst (loadSong E i r) = fst (loadSong E i s)
         \<and> sameButCounts (snd (loadSong E i s)) (snd (loadSong E i r))"
proof -
  from assms obtain a b c where r: "r = s\<lparr>hindiPlayCount := a, teluguPlayCount := b, marathiPlayCount := c\<rparr>"
    by (rule sameButCountsE)
  show ?thesis unfolding r
    by (auto simp: loadSong_def intro!: sameButCountsI [where a = a and b = b and c = c] split: option.split fetched.split)
qed

lemma sameButCounts_randomChoice:
  assumes "sameButCounts s r"
  shows "fst (randomChoice E xs r) = fst (randomChoice E xs s)
         \<and> sameButCounts (snd (randomChoice E xs s)) (snd (randomChoice E xs r))"
proof -
  from assms obtain a b c where r: "r = s\<lparr>hindiPlayCount := a, teluguPlayCount := b, marathiPlayCount := c\<rparr>"
    by (rule sameButCountsE)
  show ?thesis unfolding r
    by (auto simp: randomChoice_def intro!: sameButCountsI [where a = a and b = b and c = c])
qed

lemma sameButCounts_fetchPopular:
  assumes "sameButCounts s r"
  shows "fst (fetchPopularRandomSong E ex r) = fst (fetchPopularRandomSong E ex s)
         \<and> sameButCounts (snd (fetchPopularRandomSong E ex s)) (snd (fetchPopularRandomSong E ex r))"
proof -
  from assms obtain a b c where r: "r = s\<lparr>hindiPlayCount := a, teluguPlayCount := b, marathiPlayCount := c\<rparr>"
    by (rule sameButCountsE)
  show ?thesis unfolding r
    by (auto simp: fetchPopularRandomSong_def randomChoice_def Let_def
        intro!: sameButCountsI [where a = a and b = b and c = c] split: fetched.split)
qed

lemma sameButCounts_playSong:
  assumes "sameButCounts s r"
  shows "sameButCounts (playSong E i a fh s) (playSong E i a fh r)"
proof -
  from assms obtain x y z where r: "r = s\<lparr>hindiPlayCount := x, teluguPlayCount := y, marathiPlayCount := z\<rparr>"
    by (rule sameButCountsE)
  let ?s0 = "rememberLastPlayed i fh (s\<lparr>requested := requested s @ [i]\<rparr>)"
  let ?r0 = "rememberLastPlayed i fh (r\<lparr>requested := requested r @ [i]\<rparr>)"
  have "?r0 = ?s0\<lparr>hindiPlayCount := x, teluguPlayCount := y, marathiPlayCount := z\<rparr>"
    unfolding r by (simp add: rememberLastPlayed_def split: option.split)
  then have "sameButCounts ?s0 ?r0" by (rule sameButCountsI)
  from sameButCounts_loadSong [OF this, of E i]
  have f: "fst (loadSong E i ?r0) = fst (loadSong E i ?s0)"
    and l: "sameButCounts (snd (loadSong E i ?s0)) (snd (loadSong E i ?r0))" by simp_all
  from l obtain a' b' c' where l': "snd (loadSong E i ?r0) =
      (snd (loadSong E i ?s0))\<lparr>hindiPlayCount := a', teluguPlayCount := b', marathiPlayCount := c'\<rparr>"
    by (rule sameButCountsE)
  have rec: "sameButCounts (recordPlay i a fh sg (snd (loadSong E i ?s0)))
               (recordPlay i a fh sg (snd (loadSong E i ?r0)))" for sg
    unfolding l' sameButCounts_def by (simp add: recordPlay_def countLanguage_def Let_def)
  show ?thesis
    using f l rec
    by (simp add: playSong_def split_beta split: fetched.split option.split)
qed


lemma sameButCounts_fields:
  assumes "sameButCounts s r"
  shows "queue r = queue s" "index r = index s" "previouslyPlayed r = previouslyPlayed s"
    "lastPlayedSongId r = lastPlayedSongId s" "requested r = requested s"
    "recorded r = recorded s" "baseSongId r = baseSongId s" "songCache r = songCache s"
    "tick r = tick s" "getExclusionSet r = getExclusionSet s"
proof -
  from assms obtain a b c where "r = s\<lparr>hindiPlayCount := a, teluguPlayCount := b, marathiPlayCount := c\<rparr>"
    by (rule sameButCountsE)
  then show "queue r = queue s" "index r = index s" "previouslyPlayed r = previouslyPlayed s"
    "lastPlayedSongId r = lastPlayedSongId s" "requested r = requested s"
    "recorded r = recorded s" "baseSongId r = baseSongId s" "songCache r = songCache s"
    "tick r = tick s" "getExclusionSet r = getExclusionSet s"
    by (simp_all add: getExclusionSet_def)
qed

lemma sameButCounts_update:
  assumes "sameButCounts s r"
  shows "sameButCounts (s\<lparr>tick := t\<rparr>) (r\<lparr>tick := t\<rparr>)"
    "sameButCounts (s\<lparr>previouslyPlayed := h, queue := q, index := n\<rparr>)
       (r\<lparr>previouslyPlayed := h, queue := q, index := n\<rparr>)"
    "sameButCounts (s\<lparr>baseSongId := b, queue := q, index := n, tick := t\<rparr>)
       (r\<lparr>baseSongId := b, queue := q, index := n, tick := t\<rparr>)"
    "sameButCounts (s\<lparr>queue := q, index := n\<rparr>) (r\<lparr>queue := q, index := n\<rparr>)"
    "sameButCounts (s\<lparr>index := n\<rparr>) (r\<lparr>index := n\<rparr>)"
    "sameButCounts (s\<lparr>baseSongId := b\<rparr>) (r\<lparr>baseSongId := b\<rparr>)"
proof -
  from assms obtain x y z where r: "r = s\<lparr>hindiPlayCount := x, teluguPlayCount := y, marathiPlayCount := z\<rparr>"
    by (rule sameButCountsE)
  show "sameButCounts (s\<lparr>tick := t\<rparr>) (r\<lparr>tick := t\<rparr>)"
    "sameButCounts (s\<lparr>previouslyPlayed := h, queue := q, index := n\<rparr>)
       (r\<lparr>previouslyPlayed := h, queue := q, index := n\<rparr>)"
    "sameButCounts (s\<lparr>baseSongId := b, queue := q, index := n, tick := t\<rparr>)
       (r\<lparr>baseSongId := b, queue := q, index := n, tick := t\<rparr>)"
    "sameButCounts (s\<lparr>queue := q, index := n\<rparr>) (r\<lparr>queue := q, index := n\<rparr>)"
    "sameButCounts (s\<lparr>index := n\<rparr>) (r\<lparr>index := n\<rparr>)"
    "sameButCounts (s\<lparr>baseSongId := b\<rparr>) (r\<lparr>baseSongId := b\<rparr>)"
    unfolding r by (simp_all add: sameButCounts_def)
qed

lemma sameButCounts_fallback:
  assumes sr: "sameButCounts s r"
  shows "sameButCounts (fallbackFreshSongsWithExclusion E s) (fallbackFreshSongsWithExclusion E r)"
proof -
  let ?ex = "getExclusionSet s"
  let ?P = "\<lambda>x. truthy (sid x) \<and> sid x \<notin> ?ex"
  note f = sameButCounts_fields [OF sr]
  show ?thesis
  proof (cases "firstTruthy [lastPlayedSongId s, lastOrNull (previouslyPlayed s)]")
    case None
    from sameButCounts_fetchPopular [OF sr, of E ?ex]
    have p: "fst (fetchPopularRandomSong E ?ex r) = fst (fetchPopularRandomSong E ?ex s)"
      "sameButCounts (snd (fetchPopularRandomSong E ?ex s)) (snd (fetchPopularRandomSong E ?ex r))"
      by simp_all
    from None p sameButCounts_playSong [OF p(2)] show ?thesis
      by (simp add: fallbackFreshSongsWithExclusion_def f Let_def split_beta
          del: firstTruthy.simps split: fetched.split option.split)
  next
    case (Some b)
    from sameButCounts_loadSong [OF sr, of E b]
    have l: "fst (loadSong E b r) = fst (loadSong E b s)"
      "sameButCounts (snd (loadSong E b s)) (snd (loadSong E b r))" by simp_all
    let ?s1 = "snd (loadSong E b s)" and ?r1 = "snd (loadSong E b r)"
    note f1 = sameButCounts_fields [OF l(2)]
    let ?s2 = "?s1\<lparr>tick := tick ?s1 + 1\<rparr>" and ?r2 = "?r1\<lparr>tick := tick ?s1 + 1\<rparr>"
    have s2: "sameButCounts ?s2 ?r2" by (rule sameButCounts_update [OF l(2)])
    from sameButCounts_fetchPopular [OF s2, of E ?ex]
    have p: "fst (fetchPopularRandomSong E ?ex ?r2) = fst (fetchPopularRandomSong E ?ex ?s2)"
      "sameButCounts (snd (fetchPopularRandomSong E ?ex ?s2)) (snd (fetchPopularRandomSong E ?ex ?r2))"
      by simp_all
    have c: "fst (randomChoice E xs ?r2) = fst (randomChoice E xs ?s2)"
      "sameButCounts (snd (randomChoice E xs ?s2)) (snd (randomChoice E xs ?r2))" for xs :: "song list"
      using sameButCounts_randomChoice [OF s2, of E xs] by simp_all
    from Some l s2 p c sameButCounts_playSong [OF p(2)] sameButCounts_playSong [OF c(2)]
      sameButCounts_update(2) [OF p(2)]
    show ?thesis
      by (simp add: fallbackFreshSongsWithExclusion_def f f1 Let_def split_beta
          del: firstTruthy.simps split: fetched.split option.split)
  qed
qed

lemma sameButCounts_prefetch:
  assumes sr: "sameButCounts s r"
  shows "sameButCounts (prefetchSuggestionsFor E b s) (prefetchSuggestionsFor E b r)"
proof -
  note f = sameButCounts_fields [OF sr]
  let ?s1 = "s\<lparr>baseSongId := Some b, queue := [], index := - 1, tick := tick s + 1\<rparr>"
  let ?r1 = "r\<lparr>baseSongId := Some b, queue := [], index := - 1, tick := tick s + 1\<rparr>"
  have s1: "sameButCounts ?s1 ?r1" by (rule sameButCounts_update [OF sr])
  note f1 = sameButCounts_fields [OF s1]
  from s1 sameButCounts_fallback [OF s1, of E] sameButCounts_update(4) [OF s1]
  show ?thesis
    by (simp add: prefetchSuggestionsFor_def f f1 getExclusionSet_def Let_def split: fetched.split)
qed

lemma sameButCounts_refill:
  assumes sr: "sameButCounts s r"
  shows "sameButCounts (refill E s) (refill E r)"
proof -
  note f = sameButCounts_fields [OF sr]
  have p: "sameButCounts (prefetchSuggestionsFor E b s) (prefetchSuggestionsFor E b r)" for b
    by (rule sameButCounts_prefetch [OF sr])
  note fp = sameButCounts_fields [OF p]
  from sameButCounts_fallback [OF sr, of E] sameButCounts_fallback [OF p, of E]
    sameButCounts_playSong [OF sameButCounts_update(5) [OF p]]
  show ?thesis
    by (simp add: refill_def f fp Let_def del: firstTruthy.simps split: option.split)
qed


lemma sameButCounts_playNext:
  "\<forall>r. sameButCounts s r \<longrightarrow>
     sameButCounts (playNextFromSuggestions E s) (playNextFromSuggestions E r)"
proof (rule playNext_induct [where P = "\<lambda>s x. \<forall>r. sameButCounts s r \<longrightarrow>
      sameButCounts x (playNextFromSuggestions E r)"])
  fix s :: state
  assume h: "\<not> hasNext s"
  show "\<forall>r. sameButCounts s r \<longrightarrow> sameButCounts (refill E s) (playNextFromSuggestions E r)"
  proof (intro allI impI)
    fix r :: state
    assume sr: "sameButCounts s r"
    from h sameButCounts_fields [OF sr] have "\<not> hasNext r" by (simp add: hasNext_def)
    then have "playNextFromSuggestions E r = refill E r" by (rule playNext_exhausted)
    with sameButCounts_refill [OF sr] show "sameButCounts (refill E s) (playNextFromSuggestions E r)"
      by simp
  qed
next
  fix s :: state
  let ?s1 = "s\<lparr>index := index s + 1\<rparr>"
  assume h: "hasNext s"
    and g: "case jsAt (queue s) (index s + 1) of None \<Rightarrow> True
            | Some nextId \<Rightarrow> \<not> canPlaySong nextId (previouslyPlayed s)"
    and IH: "\<forall>r. sameButCounts ?s1 r \<longrightarrow>
        sameButCounts (playNextFromSuggestions E ?s1) (playNextFromSuggestions E r)"
  show "\<forall>r. sameButCounts s r \<longrightarrow>
        sameButCounts (playNextFromSuggestions E ?s1) (playNextFromSuggestions E r)"
  proof (intro allI impI)
    fix r :: state
    assume sr: "sameButCounts s r"
    note f = sameButCounts_fields [OF sr]
    from h f have "hasNext r" by (simp add: hasNext_def)
    from playNext_step [OF this] g f
    have "playNextFromSuggestions E r = playNextFromSuggestions E (r\<lparr>index := index s + 1\<rparr>)"
      by (simp split: option.splits)
    moreover have "sameButCounts ?s1 (r\<lparr>index := index s + 1\<rparr>)"
      by (rule sameButCounts_update [OF sr])
    ultimately show "sameButCounts (playNextFromSuggestions E ?s1) (playNextFromSuggestions E r)"
      using IH by simp
  qed
next
  fix s :: state and nextId
  let ?s1 = "s\<lparr>index := index s + 1\<rparr>"
  assume h: "hasNext s" and n: "jsAt (queue s) (index s + 1) = Some nextId"
    and c: "canPlaySong nextId (previouslyPlayed s)"
  show "\<forall>r. sameButCounts s r \<longrightarrow>
        sameButCounts ((playSong E nextId True False ?s1)
               \<lparr>baseSongId := jsOr (lastOrNull (queue s)) (Some nextId)\<rparr>)
          (playNextFromSuggestions E r)"
  proof (intro allI impI)
    fix r :: state
    assume sr: "sameButCounts s r"
    note f = sameButCounts_fields [OF sr]
    from h f have "hasNext r" by (simp add: hasNext_def)
    from playNext_step [OF this] n c f
    have "playNextFromSuggestions E r =
        (playSong E nextId True False (r\<lparr>index := index s + 1\<rparr>))
               \<lparr>baseSongId := jsOr (lastOrNull (queue s)) (Some nextId)\<rparr>"
      by simp
    moreover have "sameButCounts ?s1 (r\<lparr>index := index s + 1\<rparr>)"
      by (rule sameButCounts_update [OF sr])
    then have "sameButCounts (playSong E nextId True False ?s1)
        (playSong E nextId True False (r\<lparr>index := index s + 1\<rparr>))"
      by (rule sameButCounts_playSong)
    then have "sameButCounts ((playSong E nextId True False ?s1)
               \<lparr>baseSongId := jsOr (lastOrNull (queue s)) (Some nextId)\<rparr>)
        ((playSong E nextId True False (r\<lparr>index := index s + 1\<rparr>))
               \<lparr>baseSongId := jsOr (lastOrNull (queue s)) (Some nextId)\<rparr>)"
      by (rule sameButCounts_update)
    ultimately show "sameButCounts ((playSong E nextId True False ?s1)
               \<lparr>baseSongId := jsOr (lastOrNull (queue s)) (Some nextId)\<rparr>)
          (playNextFromSuggestions E r)" by simp
  qed
qed

section \<open>Concrete collaborators for the examples\<close>

text \<open>A catalog that knows no song and an embedding source that cannot be reached.\<close>

definition emptyCatalog :: env where
  "emptyCatalog =
     \<lparr>songsApi = (\<lambda>t i. Fetched None), suggestionsApi = (\<lambda>t i. Fetched []),
      searchApi = (\<lambda>t q n. Fetched []), mathRandom = (\<lambda>t. 0), tfLoaded = False,
      embeddingsApi = FetchFailed, currentYear = 2025,
      tensor2dThrows = (\<lambda>values. True), normalizeThrows = (\<lambda>t. True),
      similarityScores = (\<lambda>t idx. None), engineSortOrder = (\<lambda>results. [])\<rparr>"

section \<open>The play history\<close>

text \<open>A sequence of \<^verbatim>\<open>addToHistory\<close> calls, applied in order.\<close>

definition appendAll :: "songId list \<Rightarrow> songId list \<Rightarrow> songId list" where
  "appendAll h songIds = foldl (\<lambda>h i. addToHistory i h) h songIds"

text \<open>
  Claim C5 (bounded history). The capacity is 200. Starting from the empty
  history of a new session, after any sequence of \<^verbatim>\<open>addToHistory\<close> calls the
  history holds at most \<open>maxHistorySize\<close> entries, and a single call keeps a
  history within the capacity. For an identifier (a truthy value; the guard
  \<^verbatim>\<open>if (!songId) return\<close> ignores a missing one) the call does nothing when the
  identifier equals the last entry, and otherwise appends it and drops from the
  front exactly the entries in excess of the capacity.
\<close>

theorem history_bounded:
  "maxHistorySize = 200
   \<and> length (appendAll [] songIds) \<le> maxHistorySize
   \<and> (length h \<le> maxHistorySize \<longrightarrow> length (addToHistory songId h) \<le> maxHistorySize)
   \<and> (truthy songId \<longrightarrow>
        addToHistory songId h =
          (if h \<noteq> [] \<and> last h = songId then h
           else drop (length (h @ [songId]) - maxHistorySize) (h @ [songId])))"
proof (intro conjI impI)
  show "maxHistorySize = 200" by (simp add: maxHistorySize_def)
  show "length (appendAll [] songIds) \<le> maxHistorySize"
    unfolding appendAll_def by (rule length_runAppends) simp
  show "length (addToHistory songId h) \<le> maxHistorySize" if "length h \<le> maxHistorySize"
    using that by (rule length_addToHistory)
  show "addToHistory songId h =
          (if h \<noteq> [] \<and> last h = songId then h
           else drop (length (h @ [songId]) - maxHistorySize) (h @ [songId]))" if "truthy songId"
    using that by (simp add: addToHistory_def shiftWhileOver_drop)
qed

theorem history_bounded_witness:
  "length (appendAll [] [''a'', ''a'', ''b'']) \<le> maxHistorySize
   \<and> length (addToHistory ''b'' (replicate 200 ''a'')) \<le> maxHistorySize
   \<and> addToHistory ''b'' (replicate 200 ''a'') = replicate 199 ''a'' @ [''b'']"
proof -
  note T = history_bounded [of "[''a'', ''a'', ''b'']" "replicate 200 ''a''" "''b''"]
  have t: "truthy ''b''" by (simp add: truthy_def)
  have l: "length (replicate 200 ''a'') \<le> maxHistorySize" by (simp add: maxHistorySize_def)
  from T have a: "length (appendAll [] [''a'', ''a'', ''b'']) \<le> maxHistorySize"
    by (rule conjunct1 [OF conjunct2])
  from T l have b: "length (addToHistory ''b'' (replicate 200 ''a'')) \<le> maxHistorySize"
    by blast
  from T t have c: "addToHistory ''b'' (replicate 200 ''a'') =
          (if replicate 200 ''a'' \<noteq> [] \<and> last (replicate 200 ''a'') = ''b''
           then replicate 200 ''a''
           else drop (length (replicate 200 ''a'' @ [''b'']) - maxHistorySize)
                  (replicate 200 ''a'' @ [''b'']))"
    by blast
  have d: "(if replicate 200 ''a'' \<noteq> [] \<and> last (replicate 200 ''a'') = ''b''
           then replicate 200 ''a''
           else drop (length (replicate 200 ''a'' @ [''b'']) - maxHistorySize)
                  (replicate 200 ''a'' @ [''b'']))
        = replicate 199 ''a'' @ [''b'']"
    by code_simp
  from c d have e: "addToHistory ''b'' (replicate 200 ''a'') = replicate 199 ''a'' @ [''b'']"
    by (rule trans)
  from a b e show ?thesis by (intro conjI)
qed

text \<open>
  Claim C6 (no adjacent duplicates). Whatever sequence of history operations
  a session applies to its initially empty history (\<^verbatim>\<open>addToHistory\<close>, the
  front eviction, the removal of the most recent entry by the previous-track
  handlers, the clearing by the fallback), no two consecutive entries of the
  result are equal; and each single operation preserves this property.
\<close>

theorem history_no_adjacent_duplicates:
  "distinct_adj (runHistoryOps [] ops)
   \<and> (distinct_adj h \<longrightarrow> distinct_adj (applyHistoryOp h opn))"
  by (simp add: distinct_adj_runHistoryOps distinct_adj_applyHistoryOp)

theorem history_no_adjacent_duplicates_witness:
  "distinct_adj (runHistoryOps []
     [Append ''a'', Append ''a'', Append ''b'', PopLast, Append ''c'', ClampFront])
   \<and> runHistoryOps []
     [Append ''a'', Append ''a'', Append ''b'', PopLast, Append ''c'', ClampFront] = [''a'', ''c'']
   \<and> distinct_adj (applyHistoryOp [''a'', ''b''] (Append ''b''))
   \<and> applyHistoryOp [''a'', ''b''] (Append ''b'') = [''a'', ''b'']"
proof -
  let ?ops = "[Append ''a'', Append ''a'', Append ''b'', PopLast, Append ''c'', ClampFront]"
  note T = history_no_adjacent_duplicates [of ?ops "[''a'', ''b'']" "Append ''b''"]
  have a: "runHistoryOps [] ?ops = [''a'', ''c'']" by code_simp
  have b: "applyHistoryOp [''a'', ''b''] (Append ''b'') = [''a'', ''b'']" by code_simp
  have c: "distinct_adj [''a'', ''b'']" by simp
  from T have d: "distinct_adj (runHistoryOps [] ?ops)" by (rule conjunct1)
  from T c have e: "distinct_adj (applyHistoryOp [''a'', ''b''] (Append ''b''))" by blast
  from d a e b show ?thesis by (intro conjI)
qed

section \<open>The repeat gate\<close>

text \<open>
  The repeat-gate query in the words of the specification: \<open>i\<close> occurs in the
  history at a position \<open>p\<close> with \<open>length - p < minGap\<close>, that is, its most
  recent occurrence is among the last \<open>minGap\<close> entries.
\<close>

definition isRecentlyPlayedSpec :: "songId \<Rightarrow> nat \<Rightarrow> songId list \<Rightarrow> bool" where
  "isRecentlyPlayedSpec i minGap h = (\<exists>p \<in> {..<length h}. h ! p = i \<and> length h - p < minGap)"

text \<open>
  A history of 41 plays without adjacent duplicates in which the track \<open>a\<close>
  is both the oldest and the most recent entry.
\<close>

definition gateHistory :: "songId list" where
  "gateHistory = ''a'' # concat (replicate 19 [''b'', ''c'']) @ [''b'', ''a'']"

lemma indexOf_Some:
  "indexOf h i = Some idx \<Longrightarrow> idx < length h \<and> h ! idx = i"
proof (induction h arbitrary: idx)
  case Nil
  then show ?case by simp
next
  case (Cons x xs)
  show ?case
  proof (cases "x = i")
    case True
    with Cons.prems show ?thesis by simp
  next
    case False
    with Cons.prems obtain j where j: "indexOf xs i = Some j" "idx = Suc j" by auto
    with Cons.IH [OF j(1)] show ?thesis by simp
  qed
qed

lemma indexOf_eq_None: "indexOf h i = None \<longleftrightarrow> i \<notin> set h"
  by (induction h) auto

text \<open>
  What does hold of the gate: a refusal always means that the track occurs
  among the last \<open>minHistoryBeforeRepeat\<close> entries, and on a history in which no
  track occurs twice the gate is exactly the specification's query.
\<close>

lemma canPlaySong_refusal_recent:
  assumes "truthy i" "\<not> canPlaySong i h"
  shows "isRecentlyPlayedSpec i minHistoryBeforeRepeat h"
proof -
  from assms obtain idx where idx: "indexOf h i = Some idx"
    and near: "length h - idx < minHistoryBeforeRepeat"
    by (auto simp: canPlaySong_def enableSmartExclusion_def Let_def split: option.splits)
  from indexOf_Some [OF idx] near show ?thesis
    by (auto simp: isRecentlyPlayedSpec_def)
qed

lemma canPlaySong_exact_if_distinct:
  assumes "truthy i" "distinct h"
  shows "\<not> canPlaySong i h \<longleftrightarrow> isRecentlyPlayedSpec i minHistoryBeforeRepeat h"
proof
  assume "\<not> canPlaySong i h"
  with assms(1) show "isRecentlyPlayedSpec i minHistoryBeforeRepeat h"
    by (rule canPlaySong_refusal_recent)
next
  assume "isRecentlyPlayedSpec i minHistoryBeforeRepeat h"
  then obtain p where p: "p < length h" "h ! p = i" "length h - p < minHistoryBeforeRepeat"
    by (auto simp: isRecentlyPlayedSpec_def)
  then have "i \<in> set h" by auto
  then obtain idx where idx: "indexOf h i = Some idx"
    using indexOf_eq_None [of h i] by (cases "indexOf h i") auto
  from indexOf_Some [OF idx] p have "h ! idx = h ! p" "idx < length h" by simp_all
  with p(1) assms(2) have "idx = p"
    using nth_eq_iff_index_eq by blast
  with idx p assms(1) show "\<not> canPlaySong i h"
    by (simp add: canPlaySong_def enableSmartExclusion_def)
qed

text \<open>
  Claim C2 (repeat gate), evaluated where the script departs from it.
  \<^verbatim>\<open>canPlaySong\<close> measures the distance from \<^verbatim>\<open>indexOf\<close>, the oldest
  occurrence. On \<open>gateHistory\<close> the track \<open>a\<close> was played one song ago, so the
  specification's query holds for the gap 40, yet \<^verbatim>\<open>canPlaySong\<close> computes
  \<^verbatim>\<open>songsAgo = 41\<close> and lets the track through.
\<close>

theorem canPlaySong_oldest_occurrence:
  "length gateHistory = 41 \<and> distinct_adj gateHistory \<and> last gateHistory = ''a''
   \<and> isRecentlyPlayedSpec ''a'' minHistoryBeforeRepeat gateHistory
   \<and> canPlaySong ''a'' gateHistory"
  by code_simp

section \<open>Autoplay switched off\<close>

text \<open>
  Claim C10 (autoplay off). When \<^verbatim>\<open>window.ZY_SETTINGS.autoplay\<close> is
  \<^verbatim>\<open>false\<close>, the \<^verbatim>\<open>ended\<close> handler returns the state it was given: no
  identifier is handed to \<^verbatim>\<open>playSong\<close>, and the history, the last-played
  identifier, the queue, the cursor and the language counters are unchanged. In
  particular this is so right after the settings page has switched autoplay off.
\<close>

theorem onEnded_autoplay_off:
  "(autoplay s = Some False \<longrightarrow> onEnded E s = s)
   \<and> handleEvent E (handleEvent E s (AutoplayToggled False)) TrackEnded
       = handleEvent E s (AutoplayToggled False)"
  by (simp add: onEnded_def)

theorem onEnded_autoplay_off_witness:
  "autoplay (initialState\<lparr>autoplay := Some False, lastPlayedSongId := Some ''a'',
       queue := [''b''], previouslyPlayed := [''c'']\<rparr>) = Some False
   \<and> onEnded emptyCatalog (initialState\<lparr>autoplay := Some False, lastPlayedSongId := Some ''a'',
        queue := [''b''], previouslyPlayed := [''c'']\<rparr>)
      = initialState\<lparr>autoplay := Some False, lastPlayedSongId := Some ''a'', queue := [''b''],
        previouslyPlayed := [''c'']\<rparr>"
  using onEnded_autoplay_off [of "initialState\<lparr>autoplay := Some False,
        lastPlayedSongId := Some ''a'', queue := [''b''], previouslyPlayed := [''c'']\<rparr>" emptyCatalog]
  by simp

section \<open>The embedding index\<close>

text \<open>
  Every way in which the one-time load of the embeddings can fail: TF.js is
  not on the page, the request or the parsing of its body fails, \<^verbatim>\<open>ids\<close> or
  \<^verbatim>\<open>embeddings\<close> is missing from the body, or TF.js throws while it builds
  or normalises the tensor.
\<close>

definition loadFails :: "env \<Rightarrow> bool" where
  "loadFails E =
     (\<not> tfLoaded E \<or>
      (case embeddingsApi E of
         FetchFailed \<Rightarrow> True
       | Fetched json \<Rightarrow>
           (case (jsonIds json, jsonEmbeddings json) of
              (Some is, Some es) \<Rightarrow> tensor2dThrows E es \<or> normalizeThrows E (Tensor2d es)
            | _ \<Rightarrow> True)))"

lemma init_not_ready: "loadFails E \<Longrightarrow> \<not> ready (init E newRecommender)"
  by (auto simp: loadFails_def init_def newRecommender_def Let_def
      split: fetched.splits option.splits)

text \<open>These are the only ways: any other load leaves the recommender ready.\<close>

lemma init_ready: "\<not> loadFails E \<Longrightarrow> ready (init E newRecommender)"
  by (auto simp: loadFails_def init_def newRecommender_def useClientTraining_def Let_def
      split: fetched.splits option.splits)

text \<open>
  A file whose rows differ in length, and a TF.js that builds a tensor from it
  all the same (it takes the shape from the first row): the load succeeds.
\<close>

definition raggedEmbeddings :: env where
  "raggedEmbeddings =
     emptyCatalog\<lparr>tfLoaded := True,
       embeddingsApi := Fetched \<lparr>jsonIds = Some [''a'', ''b''],
                                 jsonEmbeddings = Some [[1, 2], [3]]\<rparr>,
       tensor2dThrows := (\<lambda>values. False),
       normalizeThrows := (\<lambda>t. False)\<rparr>"

lemma raggedEmbeddings_ready:
  "\<not> loadFails raggedEmbeddings \<and> ready (init raggedEmbeddings newRecommender)"
  by (simp add: loadFails_def init_def raggedEmbeddings_def emptyCatalog_def newRecommender_def
      useClientTraining_def)

definition brokenEmbeddings :: env where
  "brokenEmbeddings =
     emptyCatalog\<lparr>tfLoaded := True,
       embeddingsApi := Fetched \<lparr>jsonIds = Some [''a'', ''b''], jsonEmbeddings = None\<rparr>\<rparr>"

text \<open>
  Claim C8 (soft, permanent embedding failure). \<^verbatim>\<open>recommender.init()\<close> runs
  once, when the page has loaded, and no event of the session touches the
  recommender afterwards: at any later moment it is exactly what that one call
  left. If the load failed (TF.js missing, the request failed, \<^verbatim>\<open>ids\<close> or
  \<^verbatim>\<open>embeddings\<close> missing from the payload, or an exception of TF.js),
  \<^verbatim>\<open>ready\<close> is false for the rest of the session and every
  \<^verbatim>\<open>getNearestNeighbors\<close> call returns the empty list, not an error.
\<close>

theorem embedding_failure_permanent:
  "tfjs (runSession E evs) = init E newRecommender
   \<and> (loadFails E \<longrightarrow>
        \<not> ready (tfjs (runSession E evs))
        \<and> getNearestNeighbors E (tfjs (runSession E evs)) songId topK excludeIds = Inr [])"
  by (simp add: tfjs_runSession init_not_ready getNearestNeighbors_def)

theorem embedding_failure_permanent_witness:
  "loadFails brokenEmbeddings
   \<and> \<not> ready (tfjs (runSession brokenEmbeddings [PlayClicked ''a'', TrackEnded, NextClicked]))
   \<and> getNearestNeighbors brokenEmbeddings
        (tfjs (runSession brokenEmbeddings [PlayClicked ''a'', TrackEnded, NextClicked]))
        ''a'' 20 {} = Inr []"
proof -
  have f: "loadFails brokenEmbeddings"
    by (simp add: loadFails_def brokenEmbeddings_def emptyCatalog_def)
  with embedding_failure_permanent
         [of brokenEmbeddings "[PlayClicked ''a'', TrackEnded, NextClicked]" "''a''" 20 "{}"]
  show ?thesis by blast
qed

section \<open>The language counters\<close>

text \<open>
  The song object that \<^verbatim>\<open>playSong(id)\<close> works with: the cached one, or else
  the one the catalog returns; \<open>None\<close> when there is none, in which case
  \<^verbatim>\<open>playSong\<close> gives up before it records the play.
\<close>

definition metadataFor :: "env \<Rightarrow> songId \<Rightarrow> state \<Rightarrow> song option" where
  "metadataFor E i s =
     (case songCache s i of
        Some sg \<Rightarrow> Some sg
      | None \<Rightarrow> (case songsApi E (tick s) i of Fetched (Some sg) \<Rightarrow> Some sg | _ \<Rightarrow> None))"

definition languageCounts :: "state \<Rightarrow> nat \<times> nat \<times> nat" where
  "languageCounts s = (hindiPlayCount s, teluguPlayCount s, marathiPlayCount s)"

lemma loadSong_metadataFor:
  "fst (loadSong E i s) = Fetched (Some sg) \<longleftrightarrow> metadataFor E i s = Some sg"
  by (simp add: loadSong_def metadataFor_def split: option.split fetched.split)

lemma playSong_languageCounts:
  "languageCounts (playSong E i a fh s) =
     (case metadataFor E i s of
        None \<Rightarrow> languageCounts s
      | Some sg \<Rightarrow>
          (if toLowerCase (language sg) = ''hindi'' then hindiPlayCount s + 1 else 0,
           if toLowerCase (language sg) = ''telugu'' then teluguPlayCount s + 1 else 0,
           if toLowerCase (language sg) = ''marathi'' then marathiPlayCount s + 1 else 0))"
proof -
  let ?s0 = "rememberLastPlayed i fh (s\<lparr>requested := requested s @ [i]\<rparr>)"
  obtain r s1 where l: "loadSong E i ?s0 = (r, s1)" by (cases "loadSong E i ?s0")
  with loadSong_afterFetches [of E i ?s0] have "s1 \<in> afterFetches ?s0" by simp
  then have c: "languageCounts s1 = languageCounts s"
    "hindiPlayCount s1 = hindiPlayCount s" "teluguPlayCount s1 = teluguPlayCount s"
    "marathiPlayCount s1 = marathiPlayCount s"
    by (simp_all add: languageCounts_def afterFetches_fields)
  have m: "metadataFor E i ?s0 = metadataFor E i s"
    by (simp add: metadataFor_def split: option.split)
  show ?thesis
  proof (cases "metadataFor E i s")
    case None
    with m loadSong_metadataFor [of E i ?s0] l have "\<And>sg. r \<noteq> Fetched (Some sg)" by auto
    with l have "playSong E i a fh s = s1"
      by (cases r) (auto simp: playSong_def split: option.splits)
    with None c show ?thesis by simp
  next
    case (Some sg)
    with m loadSong_metadataFor [of E i ?s0 sg] l have "r = Fetched (Some sg)" by simp
    with l have "playSong E i a fh s = recordPlay i a fh sg s1" by (simp add: playSong_def)
    with Some c show ?thesis
      by (simp add: languageCounts_def recordPlay_def countLanguage_def Let_def)
  qed
qed

text \<open>A catalog of two Telugu songs and one Tamil song; every other request finds nothing.\<close>

definition threeSongs :: env where
  "threeSongs =
     emptyCatalog\<lparr>songsApi := (\<lambda>t i.
        if i = ''t1'' then Fetched (Some \<lparr>sid = ''t1'', language = ''Telugu'', year = ''2020''\<rparr>)
        else if i = ''t2'' then Fetched (Some \<lparr>sid = ''t2'', language = ''telugu'', year = ''2021''\<rparr>)
        else if i = ''m1'' then Fetched (Some \<lparr>sid = ''m1'', language = ''tamil'', year = ''2019''\<rparr>)
        else Fetched None)\<rparr>"

text \<open>
  Claim C9 (language counters). A play that \<^verbatim>\<open>playSong\<close> records, of a song
  whose language in lower case is \<open>L\<close>, adds one to the counter of \<open>L\<close> when
  \<open>L\<close> is hindi, telugu or marathi, and sets the other counters (all three for
  any other language) to zero; a call that finds no metadata leaves the counters
  alone. Consequently, at every moment of every session each counter equals the
  length of the current streak of its language among the recorded plays, and at
  most one of the three counters is not zero.
\<close>

theorem language_counters:
  "languageCounts (playSong E i a fh s) =
     (case metadataFor E i s of
        None \<Rightarrow> languageCounts s
      | Some sg \<Rightarrow>
          (if toLowerCase (language sg) = ''hindi'' then hindiPlayCount s + 1 else 0,
           if toLowerCase (language sg) = ''telugu'' then teluguPlayCount s + 1 else 0,
           if toLowerCase (language sg) = ''marathi'' then marathiPlayCount s + 1 else 0))
   \<and> languageCounts (runSession E evs) =
       (streak ''hindi'' (recorded (runSession E evs)),
        streak ''telugu'' (recorded (runSession E evs)),
        streak ''marathi'' (recorded (runSession E evs)))
   \<and> (hindiPlayCount (runSession E evs) = 0 \<and> teluguPlayCount (runSession E evs) = 0
      \<or> hindiPlayCount (runSession E evs) = 0 \<and> marathiPlayCount (runSession E evs) = 0
      \<or> teluguPlayCount (runSession E evs) = 0 \<and> marathiPlayCount (runSession E evs) = 0)"
proof (intro conjI)
  show "languageCounts (playSong E i a fh s) =
     (case metadataFor E i s of
        None \<Rightarrow> languageCounts s
      | Some sg \<Rightarrow>
          (if toLowerCase (language sg) = ''hindi'' then hindiPlayCount s + 1 else 0,
           if toLowerCase (language sg) = ''telugu'' then teluguPlayCount s + 1 else 0,
           if toLowerCase (language sg) = ''marathi'' then marathiPlayCount s + 1 else 0))"
    by (rule playSong_languageCounts)
  let ?s = "runSession E evs"
  have m: "countersMatchStreaks ?s" by (rule counters_runSession)
  then show "languageCounts ?s =
       (streak ''hindi'' (recorded ?s), streak ''telugu'' (recorded ?s), streak ''marathi'' (recorded ?s))"
    by (simp add: countersMatchStreaks_def languageCounts_def)
  from streak_exclusive [of "''hindi''" "''telugu''" "recorded ?s"]
    streak_exclusive [of "''hindi''" "''marathi''" "recorded ?s"]
    streak_exclusive [of "''telugu''" "''marathi''" "recorded ?s"] m
  show "hindiPlayCount ?s = 0 \<and> teluguPlayCount ?s = 0
      \<or> hindiPlayCount ?s = 0 \<and> marathiPlayCount ?s = 0
      \<or> teluguPlayCount ?s = 0 \<and> marathiPlayCount ?s = 0"
    by (auto simp: countersMatchStreaks_def)
qed

theorem language_counters_witness:
  "languageCounts (runSession threeSongs [PlayClicked ''t1'', PlayClicked ''t2'']) = (0, 2, 0)
   \<and> map sid (recorded (runSession threeSongs [PlayClicked ''t1'', PlayClicked ''t2''])) = [''t1'', ''t2'']
   \<and> languageCounts (playSong threeSongs ''m1'' False False
        (runSession threeSongs [PlayClicked ''t1'', PlayClicked ''t2''])) = (0, 0, 0)
   \<and> languageCounts (playSong threeSongs ''zz'' False False
        (runSession threeSongs [PlayClicked ''t1'', PlayClicked ''t2''])) = (0, 2, 0)"
proof -
  let ?evs = "[PlayClicked ''t1'', PlayClicked ''t2'']"
  let ?s = "runSession threeSongs ?evs"
  have r: "map sid (recorded ?s) = [''t1'', ''t2'']" by code_simp
  have st: "streak ''hindi'' (recorded ?s) = 0" "streak ''telugu'' (recorded ?s) = 2"
    "streak ''marathi'' (recorded ?s) = 0" by code_simp+
  have m1: "metadataFor threeSongs ''m1'' ?s = Some \<lparr>sid = ''m1'', language = ''tamil'', year = ''2019''\<rparr>"
    by code_simp
  have zz: "metadataFor threeSongs ''zz'' ?s = None" by code_simp
  have lc: "toLowerCase ''tamil'' = ''tamil''" by code_simp
  note T1 = language_counters [of threeSongs "''m1''" False False ?s ?evs]
  note T2 = language_counters [of threeSongs "''zz''" False False ?s ?evs]
  from T1 st have a: "languageCounts ?s = (0, 2, 0)" by simp
  from T1 m1 lc have b: "languageCounts (playSong threeSongs ''m1'' False False ?s) = (0, 0, 0)"
    by simp
  from T2 zz a have c: "languageCounts (playSong threeSongs ''zz'' False False ?s) = (0, 2, 0)"
    by simp
  from a r b c show ?thesis by (intro conjI)
qed

section \<open>The nearest-neighbour query of the recommender\<close>











text \<open>
  A score that is not a number. The file holds the rows \<open>z\<close>, \<open>p\<close> and
  \<open>q\<close>, where \<open>z\<close> is a row of zeros; dividing it by its norm gives
  \<^verbatim>\<open>NaN\<close>, and so is its product with any row. With an engine that leaves
  such a list as it is, the entry of \<open>z\<close> stays in front of the entry of
  \<open>q\<close>, whose score is 1.
\<close>

definition zeroRowTf :: env where
  "zeroRowTf =
     emptyCatalog\<lparr>tfLoaded := True,
       embeddingsApi := Fetched \<lparr>jsonIds = Some [''z'', ''p'', ''q''],
                                 jsonEmbeddings = Some [[0, 0], [1, 0], [1, 0]]\<rparr>,
       tensor2dThrows := (\<lambda>values. False),
       normalizeThrows := (\<lambda>t. False),
       similarityScores := (\<lambda>t idx. Some (Vector [NaN, Finite 1, Finite 1]))\<rparr>"

definition zeroRow :: recommender where
  "zeroRow = init zeroRowTf newRecommender"

lemma zeroRow_built:
  "zeroRow =
     \<lparr>ids = [''z'', ''p'', ''q''],
      idToIndex = setIndices Map.empty [''z'', ''p'', ''q''],
      rawEmbeddings = Some (Tensor2d [[0, 0], [1, 0], [1, 0]]),
      embeddings = Some (DivByRowNorms (Tensor2d [[0, 0], [1, 0], [1, 0]])),
      ready = True\<rparr>"
  by (simp add: zeroRow_def init_def zeroRowTf_def emptyCatalog_def newRecommender_def
      useClientTraining_def)

lemma zeroRow_example:
  "getNearestNeighbors zeroRowTf zeroRow ''p'' 20 {} = Inr [(Some ''z'', NaN), (Some ''q'', Finite 1)]"
proof -
  have "idToIndex zeroRow ''p'' = Some 1"
    by (simp add: zeroRow_built setIndices_def upt_rec)
  then show ?thesis
    by (simp add: getNearestNeighbors_def)
       (simp add: zeroRow_built zeroRowTf_def emptyCatalog_def candidateResults_def
         sortByScore_def isFinite_def jsAt_def upt_rec)
qed

section \<open>The diversity helpers\<close>

text \<open>
  The script defines a diversity predicate and a diversity sweep, but neither
  \<^verbatim>\<open>playNextFromSuggestions\<close> nor \<^verbatim>\<open>fallbackFreshSongsWithExclusion\<close> nor
  \<^verbatim>\<open>prefetchSuggestionsFor\<close> calls them. They are modelled here to compare
  what they would offer with what the fallback plays.
  \<^verbatim>\<open>
  const prelangs = ['malayalam', 'tamil'];
  const currentYear = new Date().getFullYear();
  const preyears = Array.from({ length: 21 }, (_, i) => (currentYear - i).toString());

  async function searchYearLanguage(year, language, excludeId) {
    const query = `${language} ${year}`;
    const res = await fetch(`/api/search/songs?query=${query}&limit=50`);
    const json = await res.json();
    return extractSongsFromSearchResponse(json).filter(s => s && s.id !== excludeId);
  }

  async function fetchDiverseSong(excludeIds) {
    for (const lang of prelangs) {
      for (const year of preyears) {
        const candidates = await searchYearLanguage(year, lang, null);
        const filtered = candidates.filter(s => s && s.id && !excludeIds.has(s.id));
        if (filtered.length)
          return filtered[Math.floor(Math.random() * filtered.length)];
      }
    }
    return null;
  }\<close>
\<close>

definition prelangs :: "string list" where
  "prelangs = [''malayalam'', ''tamil'']"

text \<open>\<^verbatim>\<open>Number.prototype.toString\<close> on a non-negative integer.\<close>

fun showNat :: "nat \<Rightarrow> string" where
  "showNat n = (if n < 10 then [char_of (48 + n)] else showNat (n div 10) @ [char_of (48 + n mod 10)])"

declare showNat.simps [simp del]

definition preyears :: "env \<Rightarrow> string list" where
  "preyears E = map (\<lambda>i. showNat (currentYear E - i)) [0..<21]"

text \<open>
  A \<^verbatim>\<open>null\<close> entry of a result list and an entry without \<^verbatim>\<open>id\<close> are one
  value here, the song with the empty identifier. The filter of
  \<^verbatim>\<open>searchYearLanguage\<close> drops the first and keeps the second, so its model
  keeps both; the filter of \<^verbatim>\<open>fetchDiverseSong\<close>, which reads the result,
  drops both.
\<close>

definition searchYearLanguage ::
    "env \<Rightarrow> string \<Rightarrow> string \<Rightarrow> songId option \<Rightarrow> state \<Rightarrow> song list fetched \<times> state" where
  "searchYearLanguage E yr lang excludeId s =
     (case searchApi E (tick s) (lang @ '' '' @ yr) 50 of
        FetchFailed \<Rightarrow> (FetchFailed, s\<lparr>tick := tick s + 1\<rparr>)
      | Fetched songs \<Rightarrow>
          (Fetched (filter (\<lambda>x. Some (sid x) \<noteq> excludeId) songs), s\<lparr>tick := tick s + 1\<rparr>))"

fun fetchDiverseLoop ::
    "env \<Rightarrow> songId set \<Rightarrow> (string \<times> string) list \<Rightarrow> state \<Rightarrow> song option fetched \<times> state" where
  "fetchDiverseLoop E excludeIds [] s = (Fetched None, s)"
| "fetchDiverseLoop E excludeIds ((lang, yr) # rest) s =
     (case searchYearLanguage E yr lang None s of
        (FetchFailed, s1) \<Rightarrow> (FetchFailed, s1)
      | (Fetched candidates, s1) \<Rightarrow>
          (let filtered = filter (\<lambda>x. truthy (sid x) \<and> sid x \<notin> excludeIds) candidates
           in if filtered \<noteq> []
              then (case randomChoice E filtered s1 of (c, s2) \<Rightarrow> (Fetched (Some c), s2))
              else fetchDiverseLoop E excludeIds rest s1))"

definition fetchDiverseSong :: "env \<Rightarrow> songId set \<Rightarrow> state \<Rightarrow> song option fetched \<times> state" where
  "fetchDiverseSong E excludeIds s =
     fetchDiverseLoop E excludeIds
       (concat (map (\<lambda>lang. map (\<lambda>yr. (lang, yr)) (preyears E)) prelangs)) s"

text \<open>
  A catalog with five Telugu songs of 2020 and one Malayalam song of 2025.
  No song has suggestions, the popularity query finds nothing, and every draw
  of the random source is 0.
\<close>

definition teluguSong :: "songId \<Rightarrow> song" where
  "teluguSong i = \<lparr>sid = i, language = ''telugu'', year = ''2020''\<rparr>"

definition malayalamSong :: song where
  "malayalamSong = \<lparr>sid = ''m1'', language = ''malayalam'', year = ''2025''\<rparr>"

definition teluguCatalog :: env where
  "teluguCatalog =
     emptyCatalog\<lparr>
       songsApi := (\<lambda>t i. if i \<in> set [''t1'', ''t2'', ''t3'', ''t4'', ''t5'']
                           then Fetched (Some (teluguSong i))
                           else if i = ''m1'' then Fetched (Some malayalamSong) else Fetched None),
       searchApi := (\<lambda>t q n.
          if q = ''telugu 2020'' then Fetched (map teluguSong [''t1'', ''t2'', ''t3'', ''t4'', ''t5''])
          else if q = ''malayalam 2025'' then Fetched [malayalamSong]
          else Fetched [])\<rparr>"

text \<open>The listener selects \<open>t1\<close> and then goes back to it with the previous-track button.\<close>

definition teluguStreak :: state where
  "teluguStreak = runSession teluguCatalog [PlayClicked ''t1'', PrevClicked]"

lemma fetchDiverseSong_first:
  assumes "searchApi E (tick s) (''malayalam'' @ '' '' @ showNat (currentYear E)) 50 = Fetched songs"
    and "filter (\<lambda>x. truthy (sid x) \<and> sid x \<notin> excludeIds) songs \<noteq> []"
  shows "fst (fetchDiverseSong E excludeIds s) =
           Fetched (Some (fst (randomChoice E (filter (\<lambda>x. truthy (sid x) \<and> sid x \<notin> excludeIds) songs)
                                 (s\<lparr>tick := tick s + 1\<rparr>))))"
proof -
  have "preyears E = showNat (currentYear E) # map (\<lambda>i. showNat (currentYear E - i)) [1..<21]"
    by (simp add: preyears_def upt_conv_Cons)
  then obtain rest where
    "concat (map (\<lambda>lang. map (\<lambda>yr. (lang, yr)) (preyears E)) prelangs)
       = (''malayalam'', showNat (currentYear E)) # rest"
    by (simp add: prelangs_def)
  with assms show ?thesis
    by (simp add: fetchDiverseSong_def searchYearLanguage_def split_beta Let_def)
qed

text \<open>
  Claim C4 (diversity threshold), evaluated where the script departs from it.
  In \<open>teluguStreak\<close> the last-played track is Telugu and the Telugu counter
  is 3, so \<^verbatim>\<open>shouldPlayDiverse('telugu')\<close> is true, and the diversity sweep
  has a Malayalam song to offer. The fallback nevertheless asks the catalog for
  \<^verbatim>\<open>telugu 2020\<close> and plays the Telugu song \<open>t2\<close>; the whole handling of
  the \<^verbatim>\<open>ended\<close> event records two more Telugu plays. In general the
  fallback and the whole decision request and start the same tracks whatever
  values the three counters hold.
\<close>

theorem diversity_threshold_not_consulted:
  "teluguPlayCount teluguStreak = 3
   \<and> lastPlayedSongId teluguStreak = Some ''t1''
   \<and> songCache teluguStreak ''t1'' = Some (teluguSong ''t1'')
   \<and> shouldPlayDiverse (language (teluguSong ''t1'')) teluguStreak
   \<and> fst (fetchDiverseSong teluguCatalog (getExclusionSet teluguStreak) teluguStreak)
       = Fetched (Some malayalamSong)
   \<and> requested (fallbackFreshSongsWithExclusion teluguCatalog teluguStreak)
       = requested teluguStreak @ [''t2'']
   \<and> recorded (handleEvent teluguCatalog teluguStreak TrackEnded)
       = recorded teluguStreak @ [teluguSong ''t2'', teluguSong ''t3'']
   \<and> requested (fallbackFreshSongsWithExclusion E
         (s\<lparr>hindiPlayCount := a, teluguPlayCount := b, marathiPlayCount := c\<rparr>))
       = requested (fallbackFreshSongsWithExclusion E s)
   \<and> requested (playNextFromSuggestions E
         (s\<lparr>hindiPlayCount := a, teluguPlayCount := b, marathiPlayCount := c\<rparr>))
       = requested (playNextFromSuggestions E s)
   \<and> recorded (playNextFromSuggestions E
         (s\<lparr>hindiPlayCount := a, teluguPlayCount := b, marathiPlayCount := c\<rparr>))
       = recorded (playNextFromSuggestions E s)"
proof (intro conjI)
  show "teluguPlayCount teluguStreak = 3" by code_simp
  show "lastPlayedSongId teluguStreak = Some ''t1''" by code_simp
  show "songCache teluguStreak ''t1'' = Some (teluguSong ''t1'')" by code_simp
  show "shouldPlayDiverse (language (teluguSong ''t1'')) teluguStreak" by code_simp
  have q: "searchApi teluguCatalog (tick teluguStreak)
             (''malayalam'' @ '' '' @ showNat (currentYear teluguCatalog)) 50 = Fetched [malayalamSong]"
    by code_simp
  have f: "filter (\<lambda>x. truthy (sid x) \<and> sid x \<notin> getExclusionSet teluguStreak) [malayalamSong]
             = [malayalamSong]"
    by code_simp
  from fetchDiverseSong_first [OF q] f
  show "fst (fetchDiverseSong teluguCatalog (getExclusionSet teluguStreak) teluguStreak)
       = Fetched (Some malayalamSong)"
    by (simp add: randomChoice_def)
  show "requested (fallbackFreshSongsWithExclusion teluguCatalog teluguStreak)
       = requested teluguStreak @ [''t2'']" by code_simp
  show "recorded (handleEvent teluguCatalog teluguStreak TrackEnded)
       = recorded teluguStreak @ [teluguSong ''t2'', teluguSong ''t3'']" by code_simp
  let ?r = "s\<lparr>hindiPlayCount := a, teluguPlayCount := b, marathiPlayCount := c\<rparr>"
  have r: "sameButCounts s ?r"
    by (rule sameButCountsI [where a = a and b = b and c = c]) simp
  from sameButCounts_fields [OF sameButCounts_fallback [OF r]]
  show "requested (fallbackFreshSongsWithExclusion E ?r) = requested (fallbackFreshSongsWithExclusion E s)"
    by simp
  from r sameButCounts_playNext [of s E]
  have p: "sameButCounts (playNextFromSuggestions E s) (playNextFromSuggestions E ?r)" by blast
  from sameButCounts_fields [OF p]
  show "requested (playNextFromSuggestions E ?r) = requested (playNextFromSuggestions E s)"
    and "recorded (playNextFromSuggestions E ?r) = recorded (playNextFromSuggestions E s)"
    by simp_all
qed

section \<open>Self-exclusion of the last-played track\<close>

text \<open>The identifiers handed to \<^verbatim>\<open>playSong\<close> between the state \<open>s\<close> and the later state \<open>r\<close>.\<close>

definition newlyRequested :: "state \<Rightarrow> state \<Rightarrow> songId list" where
  "newlyRequested s r = drop (length (requested s)) (requested r)"

text \<open>
  A catalog that knows the songs \<open>a\<close>, \<open>x\<close> and \<open>y\<close> and answers the
  suggestion request for \<open>a\<close> with the given list; nothing else is found.
\<close>

definition suggesting :: "songId list \<Rightarrow> env" where
  "suggesting suggestions =
     emptyCatalog\<lparr>
       songsApi := (\<lambda>t i. if i \<in> set [''a'', ''x'', ''y'']
                           then Fetched (Some \<lparr>sid = i, language = ''tamil'', year = ''2020''\<rparr>)
                           else Fetched None),
       suggestionsApi := (\<lambda>t i. if i = ''a'' then Fetched suggestions else Fetched [])\<rparr>"

text \<open>
  Claim C1 (self-exclusion). In the state of the claim \<open>X\<close> is the
  last-played track and is known in no other role; of this the proof uses
  only that \<open>X\<close> is not waiting in the suggestion queue beyond the cursor
  (the history may hold it). From such a state \<^verbatim>\<open>playNextFromSuggestions\<close>,
  through queue replay, refill and fallback, hands \<^verbatim>\<open>playSong\<close> no
  identifier equal to \<open>X\<close>. Whatever the queue holds, a refill
  (\<^verbatim>\<open>prefetchSuggestionsFor\<close>) neither puts \<open>X\<close> into the new queue nor
  plays it, and the fallback (the year/language search and the popularity
  query) does not play it.
\<close>

theorem self_exclusion:
  "(lastPlayedSongId s = Some X \<and> X \<notin> set (drop (nat (index s + 1)) (queue s)) \<longrightarrow>
      X \<notin> set (newlyRequested s (playNextFromSuggestions E s)))
   \<and> (lastPlayedSongId s = Some X \<longrightarrow>
        X \<notin> set (queue (prefetchSuggestionsFor E b s))
        \<and> X \<notin> set (newlyRequested s (prefetchSuggestionsFor E b s))
        \<and> X \<notin> set (newlyRequested s (fallbackFreshSongsWithExclusion E s)))"
proof (intro conjI impI)
  assume "lastPlayedSongId s = Some X \<and> X \<notin> set (drop (nat (index s + 1)) (queue s))"
  with playNext_self [of s X E] have "requestsOnly (- {X}) s (playNextFromSuggestions E s)"
    by blast
  from requestsOnly_drop [OF this]
  show "X \<notin> set (newlyRequested s (playNextFromSuggestions E s))"
    by (auto simp: newlyRequested_def)
next
  assume l: "lastPlayedSongId s = Some X"
  note p = prefetch_self [OF l, of E b]
  from p show "X \<notin> set (queue (prefetchSuggestionsFor E b s))" by simp
  from p have "requestsOnly (- {X}) s (prefetchSuggestionsFor E b s)" by simp
  from requestsOnly_drop [OF this]
  show "X \<notin> set (newlyRequested s (prefetchSuggestionsFor E b s))"
    by (auto simp: newlyRequested_def)
  from requestsOnly_drop [OF fallback_known [OF knownPlayed_last [OF l], of E]]
  show "X \<notin> set (newlyRequested s (fallbackFreshSongsWithExclusion E s))"
    by (auto simp: newlyRequested_def)
qed

theorem self_exclusion_witness:
  "lastPlayedSongId (runSession (suggesting [''x'', ''y'']) [PlayClicked ''a'', TrackEnded]) = Some ''x''
   \<and> ''x'' \<notin> set (drop (nat (index (runSession (suggesting [''x'', ''y'']) [PlayClicked ''a'', TrackEnded]) + 1))
                   (queue (runSession (suggesting [''x'', ''y'']) [PlayClicked ''a'', TrackEnded])))
   \<and> ''x'' \<notin> set (newlyRequested (runSession (suggesting [''x'', ''y'']) [PlayClicked ''a'', TrackEnded])
        (playNextFromSuggestions (suggesting [''x'', ''y''])
           (runSession (suggesting [''x'', ''y'']) [PlayClicked ''a'', TrackEnded])))
   \<and> newlyRequested (runSession (suggesting [''x'', ''y'']) [PlayClicked ''a'', TrackEnded])
        (playNextFromSuggestions (suggesting [''x'', ''y''])
           (runSession (suggesting [''x'', ''y'']) [PlayClicked ''a'', TrackEnded])) = [''y'']"
proof -
  let ?E = "suggesting [''x'', ''y'']"
  let ?s = "runSession ?E [PlayClicked ''a'', TrackEnded]"
  have a: "lastPlayedSongId ?s = Some ''x''" by code_simp
  have b: "''x'' \<notin> set (drop (nat (index ?s + 1)) (queue ?s))" by code_simp
  from self_exclusion [of ?s "''x''" ?E "''a''"] a b
  have c: "''x'' \<notin> set (newlyRequested ?s (playNextFromSuggestions ?E ?s))" by blast
  have d: "newlyRequested ?s (playNextFromSuggestions ?E ?s) = [''y'']" by code_simp
  from a b c d show ?thesis by (intro conjI)
qed

text \<open>
  Outside that state: when the suggestion list of \<open>a\<close> names \<open>x\<close> twice,
  the first \<^verbatim>\<open>ended\<close> event plays \<open>x\<close> from the queue and leaves the second
  copy waiting beyond the cursor, and the next \<^verbatim>\<open>ended\<close> event hands \<open>x\<close>
  to \<^verbatim>\<open>playSong\<close> again: queue replay asks \<^verbatim>\<open>canPlaySong\<close>, which looks at
  the history only, and the history does not hold the last-played track yet.
\<close>

lemma duplicate_suggestion_replayed:
  "lastPlayedSongId (runSession (suggesting [''x'', ''x'']) [PlayClicked ''a'', TrackEnded]) = Some ''x''
   \<and> queue (runSession (suggesting [''x'', ''x'']) [PlayClicked ''a'', TrackEnded]) = [''x'', ''x'']
   \<and> index (runSession (suggesting [''x'', ''x'']) [PlayClicked ''a'', TrackEnded]) = 0
   \<and> newlyRequested (runSession (suggesting [''x'', ''x'']) [PlayClicked ''a'', TrackEnded])
        (handleEvent (suggesting [''x'', ''x''])
           (runSession (suggesting [''x'', ''x'']) [PlayClicked ''a'', TrackEnded]) TrackEnded)
       = [''x'']"
proof (intro conjI)
  show "lastPlayedSongId (runSession (suggesting [''x'', ''x'']) [PlayClicked ''a'', TrackEnded]) = Some ''x''"
    by code_simp
  show "queue (runSession (suggesting [''x'', ''x'']) [PlayClicked ''a'', TrackEnded]) = [''x'', ''x'']"
    by code_simp
  show "index (runSession (suggesting [''x'', ''x'']) [PlayClicked ''a'', TrackEnded]) = 0"
    by code_simp
  show "newlyRequested (runSession (suggesting [''x'', ''x'']) [PlayClicked ''a'', TrackEnded])
        (handleEvent (suggesting [''x'', ''x''])
           (runSession (suggesting [''x'', ''x'']) [PlayClicked ''a'', TrackEnded]) TrackEnded)
       = [''x'']"
    by code_simp
qed

section \<open>Exhaustion\<close>

text \<open>
  Claim C3 (exhaustion and loop breaker). \<^verbatim>\<open>playNextFromSuggestions\<close> is a
  total function: its only recursion is the queue replay, which moves the cursor
  towards the end of the queue, so every invocation returns. Let every
  suggestion request return the empty list and every catalog search an empty
  result (whether the embedding index is ready makes no difference: the
  procedure never asks it). Then, in any state that satisfies the session
  invariant and in which no identifier of the queue beyond the cursor passes
  the repeat gate, an invocation hands nothing to \<^verbatim>\<open>playSong\<close>, makes at most
  five requests, and leaves the history and the queue empty and the cursor at
  \<open>-1\<close>. In a session with such collaborators every state is of this kind
  (its queue is empty), whatever the listener did before.
\<close>

theorem exhaustion_clears_state:
  "dry E \<longrightarrow>
     (sessionInv s \<and> noPlayableQueued s \<longrightarrow> drained 5 s (playNextFromSuggestions E s))
     \<and> sessionInv (runSession E evs) \<and> noPlayableQueued (runSession E evs)
     \<and> drained 5 (runSession E evs) (playNextFromSuggestions E (runSession E evs))"
proof
  assume d: "dry E"
  let ?s = "runSession E evs"
  have i: "sessionInv ?s" by (rule inv_runSession)
  from d have "queue ?s = []" by (rule queue_runSession_dry)
  then have n: "noPlayableQueued ?s" by (simp add: noPlayableQueued_def)
  from playNext_dry [OF d, of ?s] i n have "drained 5 ?s (playNextFromSuggestions E ?s)" by blast
  with playNext_dry [OF d, of s] i n
  show "(sessionInv s \<and> noPlayableQueued s \<longrightarrow> drained 5 s (playNextFromSuggestions E s))
     \<and> sessionInv ?s \<and> noPlayableQueued ?s \<and> drained 5 ?s (playNextFromSuggestions E ?s)"
    by blast
qed

text \<open>
  A catalog that knows the song \<open>a\<close> and nothing else: no suggestions, no
  search results.
\<close>

definition loneSong :: env where
  "loneSong =
     emptyCatalog\<lparr>songsApi := (\<lambda>t i. if i = ''a''
        then Fetched (Some \<lparr>sid = ''a'', language = ''tamil'', year = ''2020''\<rparr>) else Fetched None)\<rparr>"

theorem exhaustion_clears_state_witness:
  "dry loneSong
   \<and> lastPlayedSongId (runSession loneSong [PlayClicked ''a'', PlayClicked ''b'']) = Some ''a''
   \<and> previouslyPlayed (runSession loneSong [PlayClicked ''a'', PlayClicked ''b'']) = [''a'']
   \<and> requested (playNextFromSuggestions loneSong
        (runSession loneSong [PlayClicked ''a'', PlayClicked ''b'']))
       = requested (runSession loneSong [PlayClicked ''a'', PlayClicked ''b''])
   \<and> previouslyPlayed (playNextFromSuggestions loneSong
        (runSession loneSong [PlayClicked ''a'', PlayClicked ''b''])) = []
   \<and> queue (playNextFromSuggestions loneSong
        (runSession loneSong [PlayClicked ''a'', PlayClicked ''b''])) = []
   \<and> index (playNextFromSuggestions loneSong
        (runSession loneSong [PlayClicked ''a'', PlayClicked ''b''])) = - 1"
proof -
  let ?s = "runSession loneSong [PlayClicked ''a'', PlayClicked ''b'']"
  have d: "dry loneSong" by (simp add: dry_def loneSong_def emptyCatalog_def)
  have l: "lastPlayedSongId ?s = Some ''a''" by code_simp
  have h: "previouslyPlayed ?s = [''a'']" by code_simp
  from exhaustion_clears_state [of loneSong ?s "[PlayClicked ''a'', PlayClicked ''b'']"] d
  have "drained 5 ?s (playNextFromSuggestions loneSong ?s)" by blast
  with d l h show ?thesis by (simp add: drained_def)
qed

end
